theory Spec2Isabelle
  imports Main "HOL-Library.AList" "HOL-Library.Sublist"
begin

section \<open>Values, strings and errors\<close>

text \<open>
  JavaScript values as the helpers of this repository see them. A string is a list of
  8-bit code units (the Latin-1 range of the language's 16-bit units). A number is a
  double: \<open>Num n\<close> is the double whose value is the integer \<open>n\<close>, \<open>PosInfinity\<close> and
  \<open>NegInfinity\<close> are the two infinities; the code modelled here produces no other
  number (\<open>NaN\<close> is the \<open>None\<close> of an \<open>int option\<close> where a parse can produce it,
  and the sign of a zero is not kept). An object or array value is a reference into the
  heap.
\<close>

type_synonym addr = nat

datatype val =
    Undefined
  | Null
  | Bool bool
  | Num int
  | PosInfinity
  | NegInfinity
  | Str string
  | Ref addr

text \<open>
  What the code throws. \<open>Error msg\<close> is \<open>new Error(msg)\<close>, \<open>BadRequestException msg\<close>
  the framework's exception of that name. The two interpolation errors and the validation
  error carry message texts outside ASCII in the source, so each has a constructor of its
  own holding the interpolated parts: \<open>SelfReferenceError k\<close> is the \<open>Error\<close> thrown when
  \<open>matchKey === key\<close>, \<open>MissingVariableError k\<close> the one thrown when
  \<open>replaceValue === undefined\<close>, and \<open>DtoValidationError name message\<close> the one thrown by
  \<open>toDto\<close>, whose text is \<open>DTO\<close>, the class name, a fixed phrase with a colon, a newline
  and then \<open>message\<close>.
\<close>

datatype error =
    Error string
  | BadRequestException string
  | TypeError string
  | SelfReferenceError string
  | MissingVariableError string
  | DtoValidationError string string

fun typeof :: "val \<Rightarrow> string" where
  "typeof Undefined = ''undefined''"
| "typeof Null = ''object''"
| "typeof (Bool b) = ''boolean''"
| "typeof (Num n) = ''number''"
| "typeof PosInfinity = ''number''"
| "typeof NegInfinity = ''number''"
| "typeof (Str s) = ''string''"
| "typeof (Ref a) = ''object''"


section \<open>\<open>parseInt(value, 10)\<close>\<close>

text \<open>
  The language's \<open>parseInt\<close> at radix 10: leading white space is skipped, one sign is
  read, then the longest run of decimal digits; what follows the digits is ignored. No
  digit at all gives \<open>NaN\<close> (\<open>None\<close>). \<open>isWhiteSpace\<close> holds the white space and
  line terminators of the Latin-1 range. \<open>parseInt\<close> here is the algorithm up to its last
  step: \<open>Some n\<close> is the mathematical integer read, sign included. The last step, the
  conversion of that integer to a double, is \<open>numberValue\<close> below.
\<close>

definition isWhiteSpace :: "char \<Rightarrow> bool" where
  "isWhiteSpace c = ((of_char c :: nat) \<in> {9, 10, 11, 12, 13, 32, 160})"

definition isDigit :: "char \<Rightarrow> bool" where
  "isDigit c = (48 \<le> (of_char c :: nat) \<and> (of_char c :: nat) \<le> 57)"

definition digitVal :: "char \<Rightarrow> int" where
  "digitVal c = int (of_char c) - 48"

definition mathInt :: "string \<Rightarrow> int" where
  "mathInt Z = foldl (\<lambda>acc c. 10 * acc + digitVal c) 0 Z"

definition parseInt :: "string \<Rightarrow> int option" where
  "parseInt inputString =
     (let S = dropWhile isWhiteSpace inputString;
          sign = (if S \<noteq> [] \<and> hd S = CHR ''-'' then - 1 else 1);
          S' = (if S \<noteq> [] \<and> (hd S = CHR ''+'' \<or> hd S = CHR ''-'') then tl S else S);
          Z = takeWhile isDigit S'
      in if Z = [] then None else Some (sign * mathInt Z))"




section \<open>Request parameter validators\<close>

definition MAX_POSTGRES_INT :: int where
  "MAX_POSTGRES_INT = 2147483647"

definition DEFAULT_NAME :: string where
  "DEFAULT_NAME = ''id''"

text \<open>
  \<open>IntIdPipe.transform\<close>; \<open>name\<close> is the field of the pipe object. Past the length
  guard the string has at most 10 characters, the integer read is below \<open>10 ^ 10\<close> in
  magnitude and is its own double, so \<open>num\<close> is that integer.
\<close>

definition IntIdPipe_transform :: "string \<Rightarrow> string \<Rightarrow> error + int" where
  "IntIdPipe_transform name value =
     (if length value > 10 then
        Inl (BadRequestException (name @ '' length must be less than 10''))
      else
        (case parseInt value of
           None \<Rightarrow> Inl (BadRequestException (name @ '' must be a positive integer''))
         | Some num \<Rightarrow>
             if num \<le> 0 then
               Inl (BadRequestException (name @ '' must be a positive integer''))
             else if num > MAX_POSTGRES_INT then
               Inl (BadRequestException (name @ '' must be less than 2147483647''))
             else Inr num))"

section \<open>Scalar coercers\<close>


section \<open>Objects and the heap\<close>

text \<open>
  An object is its own enumerable string-keyed properties in enumeration order, with the
  two flags the code inspects: whether it is an array (\<open>Array.isArray\<close>) and whether it
  has been frozen (\<open>Object.freeze\<close>). An array holds its elements under the keys
  \<open>0\<close>, \<open>1\<close>, ... The heap is the list of all objects, an address is an index into it,
  and a new object is appended, so its address is the length of the heap before the
  allocation. Prototypes, accessors, symbols and functions are outside the model: a
  property read finds an own property or \<open>undefined\<close>. The code's reads \<open>data[key]\<close> also
  find what an object inherits (\<open>constructor\<close>, \<open>toString\<close>, \<open>__proto__\<close>, the methods and
  the \<open>length\<close> of an array), so the model is the code on the inputs where no key that is
  read names an inherited property of the object it is read from; the inputs outside
  that are described with \<open>mergeDefault\<close> below.
\<close>

record jsobject =
  isArray :: bool
  frozen :: bool
  props :: "(string \<times> val) list"

type_synonym heap = "jsobject list"

definition emptyObject :: jsobject where
  "emptyObject = \<lparr>isArray = False, frozen = False, props = []\<rparr>"

definition alloc :: "heap \<Rightarrow> jsobject \<Rightarrow> heap \<times> addr" where
  "alloc h ob = (h @ [ob], length h)"

text \<open>\<open>Object.keys\<close>, \<open>Object.values\<close>, \<open>obj[key]\<close> and \<open>obj[key] = v\<close>.\<close>

definition keys :: "heap \<Rightarrow> addr \<Rightarrow> string list" where
  "keys h a = map fst (props (h ! a))"

definition objectValues :: "heap \<Rightarrow> addr \<Rightarrow> val list" where
  "objectValues h a = map snd (props (h ! a))"

definition getProp :: "heap \<Rightarrow> addr \<Rightarrow> string \<Rightarrow> val" where
  "getProp h a key = (case map_of (props (h ! a)) key of None \<Rightarrow> Undefined | Some v \<Rightarrow> v)"

text \<open>
  A write to a frozen object changes nothing; otherwise an existing key keeps its place
  and a new key goes last. (The engine lists the keys that are array indexes first, in
  ascending order, and the others in insertion order; the model keeps insertion order
  for all of them, and the statements below are about the set of keys and the values,
  not about their order.)
\<close>

definition setProp :: "heap \<Rightarrow> addr \<Rightarrow> string \<Rightarrow> val \<Rightarrow> heap" where
  "setProp h a key v =
     (if frozen (h ! a) then h
      else h[a := (h ! a)\<lparr>props := AList.update key v (props (h ! a))\<rparr>])"

text \<open>
  An assignment as a caller of the library would write it: in strict code a write to a
  frozen object throws, in sloppy code it is ignored.
\<close>

definition assign :: "bool \<Rightarrow> heap \<Rightarrow> addr \<Rightarrow> string \<Rightarrow> val \<Rightarrow> error + heap" where
  "assign strict h a key v =
     (if frozen (h ! a) \<and> strict then Inl (TypeError ''Cannot assign to read only property'')
      else Inr (setProp h a key v))"

definition freeze :: "heap \<Rightarrow> addr \<Rightarrow> heap" where
  "freeze h a = h[a := (h ! a)\<lparr>frozen := True\<rparr>]"

text \<open>\<open>array.slice()\<close>: a new, unfrozen array with the same elements.\<close>

definition slice :: "heap \<Rightarrow> addr \<Rightarrow> heap \<times> addr" where
  "slice h a = alloc h \<lparr>isArray = True, frozen = False, props = props (h ! a)\<rparr>"

fun addrOf :: "val \<Rightarrow> addr" where
  "addrOf (Ref a) = a"
| "addrOf v = 0"

fun truthy :: "val \<Rightarrow> bool" where
  "truthy Undefined = False"
| "truthy Null = False"
| "truthy (Bool b) = b"
| "truthy (Num n) = (n \<noteq> 0)"
| "truthy PosInfinity = True"
| "truthy NegInfinity = True"
| "truthy (Str s) = (s \<noteq> [])"
| "truthy (Ref a) = True"

text \<open>
  \<open>v instanceof Object\<close> and \<open>Array.isArray(v)\<close>. Every object of the heap is an
  instance of \<open>Object\<close>, an array included; no primitive value is.
\<close>

fun instanceofObject :: "val \<Rightarrow> bool" where
  "instanceofObject (Ref a) = True"
| "instanceofObject v = False"

fun isArrayVal :: "heap \<Rightarrow> val \<Rightarrow> bool" where
  "isArrayVal h (Ref a) = isArray (h ! a)"
| "isArrayVal h v = False"

text \<open>
  The insertion order of \<open>new Set([...xs])\<close>: each element once, at its first occurrence.
\<close>

definition dedup :: "'a list \<Rightarrow> 'a list" where
  "dedup xs = rev (remdups (rev xs))"

text \<open>
  An object graph is acyclic within depth \<open>n\<close> when every chain of references from the
  value ends in at most \<open>n\<close> objects. A graph is acyclic when such an \<open>n\<close> exists.
\<close>

primrec acyclicWithin :: "nat \<Rightarrow> heap \<Rightarrow> val \<Rightarrow> bool" where
  "acyclicWithin 0 h v = False"
| "acyclicWithin (Suc n) h v =
     (case v of
        Ref a \<Rightarrow> a < length h \<and> list_all (acyclicWithin n h) (objectValues h a)
      | _ \<Rightarrow> True)"

text \<open>The addresses reachable from a value through properties.\<close>

inductive reachable :: "heap \<Rightarrow> val \<Rightarrow> addr \<Rightarrow> bool" for h :: heap where
  reachable_self: "reachable h (Ref a) a"
| reachable_step: "v \<in> set (objectValues h a) \<Longrightarrow> reachable h v b \<Longrightarrow> reachable h (Ref a) b"

section \<open>\<open>mergeData\<close>\<close>

text \<open>
  The body of \<open>keys.forEach\<close>, one key after the other; \<open>rec\<close> is the recursive call.
  The recursion of \<open>mergeData\<close> follows the object graph and does not end on a cyclic
  one, so the function takes fuel: the number of nested calls allowed. \<open>None\<close> is a call
  that needs more.
\<close>

primrec mergeData_forEach ::
  "(heap \<Rightarrow> addr \<Rightarrow> addr \<Rightarrow> (heap \<times> addr) option) \<Rightarrow>
   heap \<Rightarrow> addr \<Rightarrow> addr \<Rightarrow> addr \<Rightarrow> string list \<Rightarrow> heap option" where
  "mergeData_forEach rec h data1 data2 output [] = Some h"
| "mergeData_forEach rec h data1 data2 output (key # rest) =
     (let value1 = getProp h data1 key;
          value2 = getProp h data2 key
      in if typeof value1 = ''object'' \<and> typeof value2 = ''object'' \<and>
            value1 \<noteq> Null \<and> value2 \<noteq> Null then
           (case rec h (addrOf value1) (addrOf value2) of
              None \<Rightarrow> None
            | Some (h', merged) \<Rightarrow>
                mergeData_forEach rec (setProp h' output key (Ref merged)) data1 data2 output rest)
         else if value2 \<noteq> Undefined then
           mergeData_forEach rec (setProp h output key value2) data1 data2 output rest
         else
           mergeData_forEach rec (setProp h output key value1) data1 data2 output rest)"

primrec mergeData :: "nat \<Rightarrow> heap \<Rightarrow> addr \<Rightarrow> addr \<Rightarrow> (heap \<times> addr) option" where
  "mergeData 0 h data1 data2 = None"
| "mergeData (Suc n) h data1 data2 =
     (let keyList = dedup (keys h data1 @ keys h data2);
          (h1, output) = alloc h emptyObject
      in case mergeData_forEach (mergeData n) h1 data1 data2 output keyList of
           None \<Rightarrow> None
         | Some h2 \<Rightarrow> Some (h2, output))"

section \<open>\<open>mergeDefault\<close>\<close>

text \<open>
  \<open>objValue\<close>: the data's value when it is an object and not an array, a new empty
  object otherwise.
\<close>

definition objValueOf :: "heap \<Rightarrow> val \<Rightarrow> heap \<times> addr" where
  "objValueOf h value =
     (if truthy value \<and> instanceofObject value \<and> \<not> isArrayVal h value
      then (h, addrOf value) else alloc h emptyObject)"

text \<open>
  The body of the \<open>for (const key of keySet)\<close> loop; \<open>rec\<close> is the recursive call.
  Like \<open>mergeData\<close>, \<open>mergeDefault\<close> takes fuel for its nested calls; an exception is
  the \<open>Inl\<close> of the result.
\<close>

primrec mergeDefault_for ::
  "(heap \<Rightarrow> addr \<Rightarrow> addr \<Rightarrow> (error + heap \<times> addr) option) \<Rightarrow>
   heap \<Rightarrow> addr \<Rightarrow> addr \<Rightarrow> addr \<Rightarrow> string list \<Rightarrow> (error + heap) option" where
  "mergeDefault_for rec h data defaultData result [] = Some (Inr h)"
| "mergeDefault_for rec h data defaultData result (key # rest) =
     (let value = getProp h data key;
          defaultValue = getProp h defaultData key
      in if truthy defaultValue \<and> instanceofObject defaultValue then
           (let (h1, objValue) = objValueOf h value
            in case rec h1 objValue (addrOf defaultValue) of
                 None \<Rightarrow> None
               | Some (Inl e) \<Rightarrow> Some (Inl e)
               | Some (Inr (h2, merged)) \<Rightarrow>
                   mergeDefault_for rec (setProp h2 result key (Ref merged))
                     data defaultData result rest)
         else if isArrayVal h defaultValue then
           (if isArrayVal h value then
              (if list_ex instanceofObject (objectValues h (addrOf value)) then
                 Some (Inl (Error
                   (''Invalid data: Array of object is not supported in key '' @ key)))
               else
                 (let (h1, copy) = slice h (addrOf value)
                  in mergeDefault_for rec (setProp h1 result key (Ref copy))
                       data defaultData result rest))
            else
              (if list_ex instanceofObject (objectValues h (addrOf defaultValue)) then
                 Some (Inl (Error
                   (''Invalid default data: Array of object is not supported in key '' @ key)))
               else
                 (let (h1, copy) = slice h (addrOf defaultValue)
                  in mergeDefault_for rec (setProp h1 result key (Ref copy))
                       data defaultData result rest)))
         else
           mergeDefault_for rec
             (setProp h result key (if value = Undefined then defaultValue else value))
             data defaultData result rest)"

primrec mergeDefault :: "nat \<Rightarrow> heap \<Rightarrow> addr \<Rightarrow> addr \<Rightarrow> (error + heap \<times> addr) option" where
  "mergeDefault 0 h data defaultData = None"
| "mergeDefault (Suc n) h data defaultData =
     (let (h1, result) = alloc h emptyObject;
          keySet = dedup (keys h data @ keys h defaultData)
      in case mergeDefault_for (mergeDefault n) h1 data defaultData result keySet of
           None \<Rightarrow> None
         | Some (Inl e) \<Rightarrow> Some (Inl e)
         | Some (Inr h2) \<Rightarrow> Some (Inr (h2, result)))"

section \<open>\<open>deepFreeze\<close>\<close>

text \<open>
  The loop over \<open>Object.values(obj)\<close>, and the function itself with fuel for the depth of
  its recursion, which the code does not bound.
\<close>

primrec deepFreeze_values ::
  "(heap \<Rightarrow> val \<Rightarrow> (heap \<times> val) option) \<Rightarrow> heap \<Rightarrow> val list \<Rightarrow> heap option" where
  "deepFreeze_values rec h [] = Some h"
| "deepFreeze_values rec h (v # rest) =
     (case rec h v of
        None \<Rightarrow> None
      | Some (h', r) \<Rightarrow> deepFreeze_values rec h' rest)"

primrec deepFreeze :: "nat \<Rightarrow> heap \<Rightarrow> val \<Rightarrow> (heap \<times> val) option" where
  "deepFreeze 0 h obj = None"
| "deepFreeze (Suc n) h obj =
     (if obj = Null \<or> typeof obj \<noteq> ''object'' then Some (h, obj)
      else
        (let h1 = freeze h (addrOf obj)
         in case deepFreeze_values (deepFreeze n) h1 (objectValues h1 (addrOf obj)) of
              None \<Rightarrow> None
            | Some h2 \<Rightarrow> Some (h2, obj)))"

section \<open>\<open>replaceEnvVariable\<close>\<close>

text \<open>
  The mapping \<open>parsed\<close>: keys in enumeration order, a value being a string or
  \<open>undefined\<close> (\<open>None\<close>). \<open>envGet\<close> is \<open>parsed[key]\<close>, with \<open>None\<close> for \<open>undefined\<close>,
  whether the key is absent or holds it. Only the mapping's own keys are looked up: a
  name such as \<open>toString\<close>, which \<open>parsed[key]\<close> finds on the prototype, is outside the
  model.
\<close>

type_synonym env = "(string \<times> string option) list"

definition envGet :: "env \<Rightarrow> string \<Rightarrow> string option" where
  "envGet parsed key = (case map_of parsed key of Some (Some s) \<Rightarrow> Some s | _ \<Rightarrow> None)"

definition isLineTerminator :: "char \<Rightarrow> bool" where
  "isLineTerminator c = ((of_char c :: nat) \<in> {10, 13})"

text \<open>
  \<open>regex.exec(value)\<close> from \<open>lastIndex = 0\<close> for the expression
  \<open>(?<=\$\{).*?(?=\})\<close>: at the leftmost position that follows a dollar sign and an
  opening brace and from which a closing brace is reached on the same line, the text up
  to the first closing brace. \<open>takeKey\<close> is the lazy \<open>.*?\<close> with its lookahead.
\<close>

fun takeKey :: "string \<Rightarrow> string option" where
  "takeKey [] = None"
| "takeKey (c # cs) =
     (if c = CHR ''}'' then Some []
      else if isLineTerminator c then None
      else map_option ((#) c) (takeKey cs))"

fun regexExec :: "string \<Rightarrow> string option" where
  "regexExec (a # b # cs) =
     (if a = CHR ''$'' \<and> b = CHR ''{'' then
        (case takeKey cs of Some k \<Rightarrow> Some k | None \<Rightarrow> regexExec (b # cs))
      else regexExec (b # cs))"
| "regexExec cs = None"

text \<open>
  \<open>value.replace(pattern, replacement)\<close> with two strings: the first occurrence of the
  pattern is replaced, and in the replacement text a dollar sign followed by a dollar
  sign, an ampersand, a backquote or a quote stands for a dollar sign, the matched text,
  the text before the match and the text after it (the language's \<open>GetSubstitution\<close>;
  with a string pattern there are no groups, so any other dollar sign stands for itself).
\<close>

fun splitAtFirst :: "string \<Rightarrow> string \<Rightarrow> (string \<times> string) option" where
  "splitAtFirst pat [] = (if pat = [] then Some ([], []) else None)"
| "splitAtFirst pat (c # cs) =
     (if take (length pat) (c # cs) = pat then Some ([], drop (length pat) (c # cs))
      else map_option (\<lambda>(preceding, following). (c # preceding, following)) (splitAtFirst pat cs))"

fun getSubstitution :: "string \<Rightarrow> string \<Rightarrow> string \<Rightarrow> string \<Rightarrow> string" where
  "getSubstitution matched preceding following (c # d # cs) =
     (if c = CHR ''$'' then
        (if d = CHR ''$'' then CHR ''$'' # getSubstitution matched preceding following cs
         else if d = CHR ''&'' then matched @ getSubstitution matched preceding following cs
         else if d = CHR 0x60 then preceding @ getSubstitution matched preceding following cs
         else if d = CHR 0x27 then following @ getSubstitution matched preceding following cs
         else c # getSubstitution matched preceding following (d # cs))
      else c # getSubstitution matched preceding following (d # cs))"
| "getSubstitution matched preceding following cs = cs"

definition replaceFirst :: "string \<Rightarrow> string \<Rightarrow> string \<Rightarrow> string" where
  "replaceFirst s pat replacement =
     (case splitAtFirst pat s of
        None \<Rightarrow> s
      | Some (preceding, following) \<Rightarrow> preceding @ getSubstitution pat preceding following replacement @ following)"

text \<open>
  The \<open>while\<close> loop for one key. Nothing in the code bounds the number of its rounds,
  so it takes fuel; \<open>None\<close> is a loop that has not ended within it.
\<close>

primrec replaceLoop ::
  "nat \<Rightarrow> env \<Rightarrow> string \<Rightarrow> string \<Rightarrow> (error + env \<times> string) option" where
  "replaceLoop 0 parsed key value = None"
| "replaceLoop (Suc n) parsed key value =
     (case regexExec value of
        None \<Rightarrow> Some (Inr (parsed, value))
      | Some matchKey \<Rightarrow>
          (let replaceValue = envGet parsed matchKey
           in if matchKey = key then Some (Inl (SelfReferenceError matchKey))
              else case replaceValue of
                None \<Rightarrow> Some (Inl (MissingVariableError matchKey))
              | Some r \<Rightarrow>
                  (let value' = replaceFirst value (''${'' @ matchKey @ ''}'') r;
                       parsed' = AList.update key (Some value') parsed
                   in replaceLoop n parsed' key value')))"

text \<open>
  The \<open>for\<close> loop over \<open>keyList\<close>, and the function; each \<open>while\<close> loop gets fuel
  \<open>n\<close>. After the \<open>while\<close> loop \<open>parsed[key]\<close> is the string \<open>value\<close>, which
  \<open>result[key] = parsed[key]\<close> stores.
\<close>

primrec replaceEnvVariable_for ::
  "nat \<Rightarrow> env \<Rightarrow> (string \<times> string) list \<Rightarrow> string list \<Rightarrow>
   (error + (string \<times> string) list) option" where
  "replaceEnvVariable_for n parsed result [] = Some (Inr result)"
| "replaceEnvVariable_for n parsed result (key # rest) =
     (case envGet parsed key of
        None \<Rightarrow> replaceEnvVariable_for n parsed result rest
      | Some value \<Rightarrow>
          (case replaceLoop n parsed key value of
             None \<Rightarrow> None
           | Some (Inl e) \<Rightarrow> Some (Inl e)
           | Some (Inr (parsed', value')) \<Rightarrow>
               replaceEnvVariable_for n parsed'
                 (AList.update key (case envGet parsed' key of Some s \<Rightarrow> s | None \<Rightarrow> value')
                    result)
                 rest))"

definition replaceEnvVariable ::
  "nat \<Rightarrow> env \<Rightarrow> (error + (string \<times> string) list) option" where
  "replaceEnvVariable n parsed = replaceEnvVariable_for n parsed [] (map fst parsed)"

section \<open>\<open>toDto\<close>\<close>

text \<open>
  What \<open>validateSync\<close> reports: the field (\<open>property\<close>), the violated constraints of the
  field as a mapping from the constraint's name to its message, absent for an error that
  only has nested errors, and the text of \<open>error.toString()\<close>.
\<close>

record ValidationError =
  property :: string
  constraints :: "(string \<times> string) list option"
  toStringText :: string

text \<open>The argument \<open>validate\<close>: a boolean or an options object.\<close>

datatype 'o validate = ValidateFlag bool | ValidatorOptions 'o

fun truthyValidate :: "'o validate \<Rightarrow> bool" where
  "truthyValidate (ValidateFlag b) = b"
| "truthyValidate (ValidatorOptions opt) = True"

text \<open>\<open>validate === true ? undefined : validate\<close>.\<close>

fun validateOptionOf :: "'o validate \<Rightarrow> 'o option" where
  "validateOptionOf (ValidateFlag b) = None"
| "validateOptionOf (ValidatorOptions opt) = Some opt"

definition newline :: char where
  "newline = CHR 0x0A"

text \<open>The two loops that build \<open>message\<close>, with \<open>message\<close> as the accumulator.\<close>

primrec constraintsMessage :: "string \<Rightarrow> (string \<times> string) list \<Rightarrow> string" where
  "constraintsMessage message [] = message"
| "constraintsMessage message (c # cs) =
     constraintsMessage (message @ ''- '' @ fst c @ '': '' @ snd c @ [newline]) cs"

primrec errorsMessage :: "string \<Rightarrow> ValidationError list \<Rightarrow> string" where
  "errorsMessage message [] = message"
| "errorsMessage message (e # es) =
     (case constraints e of
        Some cs \<Rightarrow> errorsMessage (constraintsMessage message cs) es
      | None \<Rightarrow> errorsMessage (message @ ''- '' @ toStringText e @ [newline]) es)"

text \<open>
  \<open>toDto\<close>. The two library calls are outside the repository: \<open>inst\<close> is the instance
  that \<open>plainToInstance\<close> returned and \<open>validateSync\<close> the validator; \<open>dtoClassName\<close> is
  \<open>dtoClass.name\<close>.
\<close>

definition toDto ::
  "string \<Rightarrow> 'i \<Rightarrow> ('i \<Rightarrow> 'o option \<Rightarrow> ValidationError list) \<Rightarrow> 'o validate \<Rightarrow> error + 'i" where
  "toDto dtoClassName inst validateSync validate =
     (if \<not> truthyValidate validate then Inr inst
      else
        (let validateOption = validateOptionOf validate;
             errors = validateSync inst validateOption
         in if length errors > 0 then
              Inl (DtoValidationError dtoClassName (errorsMessage [] errors))
            else Inr inst))"

section \<open>Reference notions\<close>

text \<open>
  The rendering of validation failures in the words of the specification: one entry
  \<open><field>: <message>\<close> per violated constraint, the entries joined by newlines.
\<close>

definition spec_entry :: "string \<Rightarrow> string \<Rightarrow> string" where
  "spec_entry field message = field @ '': '' @ message"

fun spec_join :: "string list \<Rightarrow> string" where
  "spec_join [] = []"
| "spec_join [e] = e"
| "spec_join (e # es) = e @ [newline] @ spec_join es"

definition spec_validation_message :: "ValidationError list \<Rightarrow> string" where
  "spec_validation_message errors =
     spec_join (concat (map (\<lambda>e. map (\<lambda>c. spec_entry (property e) (snd c))
                                   (case constraints e of Some cs \<Rightarrow> cs | None \<Rightarrow> []))
                            errors))"

text \<open>What the code writes for one reported error.\<close>

definition errorLines :: "ValidationError \<Rightarrow> string" where
  "errorLines e =
     (case constraints e of
        Some cs \<Rightarrow> concat (map (\<lambda>c. ''- '' @ fst c @ '': '' @ snd c @ [newline]) cs)
      | None \<Rightarrow> ''- '' @ toStringText e @ [newline])"

text \<open>
  \<open>extends h h'\<close>: every object of \<open>h\<close> is in \<open>h'\<close> at its address, as it was. A call
  that takes \<open>h\<close> to \<open>h'\<close> has then mutated nothing that existed before it.
\<close>

definition extends :: "heap \<Rightarrow> heap \<Rightarrow> bool" where
  "extends h h' = (length h \<le> length h' \<and> take (length h) h' = h)"


text \<open>
  What a call of \<open>mergeData\<close> that takes \<open>h\<close> to \<open>h'\<close> and returns \<open>m\<close> has done:
  nothing older is changed, \<open>m\<close> is the first address allocated, and the object there is
  a plain object whose keys are those of the two arguments.
\<close>

definition mergeData_post :: "heap \<Rightarrow> addr \<Rightarrow> addr \<Rightarrow> heap \<Rightarrow> addr \<Rightarrow> bool" where
  "mergeData_post h a b h' m \<longleftrightarrow>
     extends h h' \<and> m = length h \<and> m < length h' \<and> \<not> isArray (h' ! m) \<and>
     set (keys h' m) = set (keys h a) \<union> set (keys h b)"

text \<open>
  \<open>freezes h h'\<close>: \<open>h'\<close> has the objects of \<open>h\<close> with the same properties; the only
  change is that objects may have become frozen.
\<close>

definition freezes :: "heap \<Rightarrow> heap \<Rightarrow> bool" where
  "freezes h h' =
     list_all2 (\<lambda>ob ob'. props ob' = props ob \<and> isArray ob' = isArray ob \<and>
                  (frozen ob' \<or> \<not> frozen ob)) h h'"

section \<open>Example heaps\<close>

text \<open>
  \<open>heap_config\<close>: at 0 the data \<open>{port: 8080, extra: "x"}\<close>, at 1 the default
  \<open>{port: 3000, host: "localhost", db: {name: "app"}}\<close>.
\<close>

definition heap_config :: heap where
  "heap_config =
     [\<lparr>isArray = False, frozen = False,
        props = [(''port'', Num 8080), (''extra'', Str ''x'')]\<rparr>,
      \<lparr>isArray = False, frozen = False,
        props = [(''port'', Num 3000), (''host'', Str ''localhost''), (''db'', Ref 2)]\<rparr>,
      \<lparr>isArray = False, frozen = False, props = [(''name'', Str ''app'')]\<rparr>]"

text \<open>
  \<open>heap_absent_array\<close>: data \<open>{}\<close> at 0, default \<open>{k: [1, 2, 3]}\<close> at 1.
  \<open>heap_data_array\<close>: data \<open>{k: [7, 8]}\<close> at 0, default \<open>{k: [1, 2, 3]}\<close> at 1.
\<close>

definition heap_absent_array :: heap where
  "heap_absent_array =
     [\<lparr>isArray = False, frozen = False, props = []\<rparr>,
      \<lparr>isArray = False, frozen = False, props = [(''k'', Ref 2)]\<rparr>,
      \<lparr>isArray = True, frozen = False,
        props = [(''0'', Num 1), (''1'', Num 2), (''2'', Num 3)]\<rparr>]"

definition heap_data_array :: heap where
  "heap_data_array =
     [\<lparr>isArray = False, frozen = False, props = [(''k'', Ref 3)]\<rparr>,
      \<lparr>isArray = False, frozen = False, props = [(''k'', Ref 2)]\<rparr>,
      \<lparr>isArray = True, frozen = False,
        props = [(''0'', Num 1), (''1'', Num 2), (''2'', Num 3)]\<rparr>,
      \<lparr>isArray = True, frozen = False, props = [(''0'', Num 7), (''1'', Num 8)]\<rparr>]"

text \<open>
  \<open>heap_data_object_array\<close>: data \<open>{k: [{a: 1}]}\<close> at 0, default \<open>{k: []}\<close> at 1.
  \<open>heap_default_object_array\<close>: data \<open>{}\<close> at 0, default \<open>{k: [{a: 1}]}\<close> at 1.
\<close>

definition heap_data_object_array :: heap where
  "heap_data_object_array =
     [\<lparr>isArray = False, frozen = False, props = [(''k'', Ref 3)]\<rparr>,
      \<lparr>isArray = False, frozen = False, props = [(''k'', Ref 2)]\<rparr>,
      \<lparr>isArray = True, frozen = False, props = []\<rparr>,
      \<lparr>isArray = True, frozen = False, props = [(''0'', Ref 4)]\<rparr>,
      \<lparr>isArray = False, frozen = False, props = [(''a'', Num 1)]\<rparr>]"

definition heap_default_object_array :: heap where
  "heap_default_object_array =
     [\<lparr>isArray = False, frozen = False, props = []\<rparr>,
      \<lparr>isArray = False, frozen = False, props = [(''k'', Ref 2)]\<rparr>,
      \<lparr>isArray = True, frozen = False, props = [(''0'', Ref 3)]\<rparr>,
      \<lparr>isArray = False, frozen = False, props = [(''a'', Num 1)]\<rparr>]"

text \<open>\<open>heap_merge_arrays\<close>: \<open>{k: [1, 2]}\<close> at 0 and \<open>{k: [3]}\<close> at 1.\<close>

definition heap_merge_arrays :: heap where
  "heap_merge_arrays =
     [\<lparr>isArray = False, frozen = False, props = [(''k'', Ref 2)]\<rparr>,
      \<lparr>isArray = False, frozen = False, props = [(''k'', Ref 3)]\<rparr>,
      \<lparr>isArray = True, frozen = False, props = [(''0'', Num 1), (''1'', Num 2)]\<rparr>,
      \<lparr>isArray = True, frozen = False, props = [(''0'', Num 3)]\<rparr>]"

text \<open>\<open>heap_nested\<close>: \<open>{a: {b: 1}}\<close> at 0.\<close>

definition heap_nested :: heap where
  "heap_nested =
     [\<lparr>isArray = False, frozen = False, props = [(''a'', Ref 1)]\<rparr>,
      \<lparr>isArray = False, frozen = False, props = [(''b'', Num 1)]\<rparr>]"

section \<open>Example inputs\<close>

text \<open>
  A validator that reports two violated constraints of the field \<open>port\<close> and one error
  without constraints.
\<close>

definition port_error :: ValidationError where
  "port_error =
     \<lparr>property = ''port'',
      constraints = Some [(''isInt'', ''port must be an integer number''),
                          (''min'', ''port must not be less than 1'')],
      toStringText = []\<rparr>"

definition db_error :: ValidationError where
  "db_error =
     \<lparr>property = ''db'', constraints = None,
      toStringText = ''An instance of Db has failed the validation''\<rparr>"

definition validateSync_example :: "nat \<Rightarrow> unit option \<Rightarrow> ValidationError list" where
  "validateSync_example inst validateOption = [port_error, db_error]"

text \<open>Environment mappings: a value with two dollar signs, and a value \<open>$&\<close>.\<close>

definition env_password :: env where
  "env_password =
     [(''PASSWORD'', Some ''pa$$word''), (''URL'', Some ''db://app:${PASSWORD}@host'')]"

definition env_ampersand :: env where
  "env_ampersand = [(''A'', Some ''$&''), (''B'', Some ''${A}'')]"

section \<open>Properties of the parsers and validators\<close>







text \<open>
  Claim C7. For every input string \<open>s\<close>, \<open>IntIdPipe.transform\<close> fails with a message that
  starts with the field's name if \<open>s\<close> has more than 10 characters; fails if \<open>parseInt\<close>
  finds no integer in \<open>s\<close> or finds one that is not positive; fails if the parsed value
  exceeds 2147483647; and otherwise returns the parsed integer.
\<close>

theorem IntIdPipe_transform_spec:
  "(length s > 10 \<longrightarrow>
      IntIdPipe_transform name s =
        Inl (BadRequestException (name @ '' length must be less than 10''))) \<and>
   (length s \<le> 10 \<and> (parseInt s = None \<or> (\<exists>m. parseInt s = Some m \<and> m \<le> 0)) \<longrightarrow>
      IntIdPipe_transform name s =
        Inl (BadRequestException (name @ '' must be a positive integer''))) \<and>
   (length s \<le> 10 \<and> parseInt s = Some n \<and> n > 2147483647 \<longrightarrow>
      IntIdPipe_transform name s =
        Inl (BadRequestException (name @ '' must be less than 2147483647''))) \<and>
   (length s \<le> 10 \<and> parseInt s = Some n \<and> 0 < n \<and> n \<le> 2147483647 \<longrightarrow>
      IntIdPipe_transform name s = Inr n)"
  by (auto simp: IntIdPipe_transform_def MAX_POSTGRES_INT_def)

text \<open>The examples of the specification, evaluated.\<close>

lemmas parseInt_eval = parseInt_def isWhiteSpace_def isDigit_def mathInt_def digitVal_def Let_def

lemma parseInt_eval_42: "parseInt ''42'' = Some 42" by (simp add: parseInt_eval)
lemma parseInt_eval_0: "parseInt ''0'' = Some 0" by (simp add: parseInt_eval)
lemma parseInt_eval_2147483648: "parseInt ''2147483648'' = Some 2147483648" by (simp add: parseInt_eval)
lemma parseInt_eval_abc: "parseInt ''abc'' = None" by (simp add: parseInt_eval)

theorem IntIdPipe_transform_spec_witness:
  "IntIdPipe_transform ''id'' ''42'' = Inr 42 \<and>
   IntIdPipe_transform ''id'' ''0'' = Inl (BadRequestException ''id must be a positive integer'') \<and>
   IntIdPipe_transform ''id'' ''abc'' = Inl (BadRequestException ''id must be a positive integer'') \<and>
   IntIdPipe_transform ''id'' ''99999999999'' = Inl (BadRequestException ''id length must be less than 10'') \<and>
   IntIdPipe_transform ''id'' ''2147483648'' = Inl (BadRequestException ''id must be less than 2147483647'')"
  using IntIdPipe_transform_spec [of "''42''" "''id''" 42]
    IntIdPipe_transform_spec [of "''0''" "''id''" 0]
    IntIdPipe_transform_spec [of "''abc''" "''id''" 0]
    IntIdPipe_transform_spec [of "''99999999999''" "''id''" 0]
    IntIdPipe_transform_spec [of "''2147483648''" "''id''" 2147483648]
  by (simp add: parseInt_eval_42 parseInt_eval_0 parseInt_eval_2147483648 parseInt_eval_abc)
















section \<open>Properties of the heap operations\<close>

lemma extends_nth: "extends h h' \<longleftrightarrow> length h \<le> length h' \<and> (\<forall>a<length h. h' ! a = h ! a)"
  by (auto simp: extends_def list_eq_iff_nth_eq)

lemma extends_refl: "extends h h"
  by (simp add: extends_def)

lemma extends_trans: "extends h1 h2 \<Longrightarrow> extends h2 h3 \<Longrightarrow> extends h1 h3"
  by (auto simp: extends_nth)

lemma extends_append: "extends h (h @ xs)"
  by (simp add: extends_def)

lemma extends_update: "extends h0 h \<Longrightarrow> length h0 \<le> a \<Longrightarrow> extends h0 (h[a := x])"
  by (auto simp: extends_nth)

lemma length_setProp: "length (setProp h a k v) = length h"
  by (simp add: setProp_def)

lemma setProp_nth_other: "a \<noteq> b \<Longrightarrow> setProp h a k v ! b = h ! b"
  by (simp add: setProp_def)

lemma extends_setProp: "extends h0 h \<Longrightarrow> length h0 \<le> a \<Longrightarrow> extends h0 (setProp h a k v)"
  by (simp add: setProp_def extends_update)

lemma setProp_nth_same:
  "a < length h \<Longrightarrow> \<not> frozen (h ! a) \<Longrightarrow>
   setProp h a k v ! a = (h ! a)\<lparr>props := AList.update k v (props (h ! a))\<rparr>"
  by (simp add: setProp_def)

lemma getProp_setProp:
  "a < length h \<Longrightarrow> \<not> frozen (h ! a) \<Longrightarrow>
   getProp (setProp h a k v) a k' = (if k' = k then v else getProp h a k')"
  by (simp add: getProp_def setProp_nth_same update_conv)

lemma keys_setProp:
  "a < length h \<Longrightarrow> \<not> frozen (h ! a) \<Longrightarrow>
   set (keys (setProp h a k v) a) = insert k (set (keys h a))"
  by (simp add: keys_def setProp_nth_same dom_update)

lemma getProp_same_object: "h' ! a = h ! a \<Longrightarrow> getProp h' a k = getProp h a k"
  by (simp add: getProp_def)

lemma keys_same_object: "h' ! a = h ! a \<Longrightarrow> keys h' a = keys h a"
  by (simp add: keys_def)

lemma objectValues_same_object: "h' ! a = h ! a \<Longrightarrow> objectValues h' a = objectValues h a"
  by (simp add: objectValues_def)

lemma getProp_in_values: "getProp h a k = Ref b \<Longrightarrow> Ref b \<in> set (objectValues h a)"
  by (auto simp: getProp_def objectValues_def split: option.splits dest!: map_of_SomeD intro: rev_image_eqI)

lemma set_dedup: "set (dedup xs) = set xs"
  by (simp add: dedup_def)

lemma distinct_dedup: "distinct (dedup xs)"
  by (simp add: dedup_def)

lemma acyclicWithin_extends:
  "acyclicWithin n h v \<Longrightarrow> extends h h' \<Longrightarrow> acyclicWithin n h' v"
proof (induction n arbitrary: v)
  case 0
  then show ?case by simp
next
  case (Suc n)
  show ?case
  proof (cases v)
    case (Ref a)
    with Suc.prems have a: "a < length h" and kids: "list_all (acyclicWithin n h) (objectValues h a)"
      by simp_all
    from a Suc.prems(2) have same: "h' ! a = h ! a" and a': "a < length h'"
      by (auto simp: extends_nth)
    from kids Suc.IH Suc.prems(2) have "list_all (acyclicWithin n h') (objectValues h a)"
      by (simp add: list_all_iff)
    with a' Ref show ?thesis
      by (simp add: objectValues_same_object [OF same])
  qed simp_all
qed

lemma acyclicWithin_child:
  "acyclicWithin (Suc n) h (Ref a) \<Longrightarrow> getProp h a k = Ref b \<Longrightarrow> acyclicWithin n h (Ref b)"
  by (auto simp: list_all_iff dest: getProp_in_values)

lemma acyclicWithin_bound: "acyclicWithin n h (Ref a) \<Longrightarrow> a < length h"
  by (cases n) simp_all

lemma instanceofObject_iff: "instanceofObject v \<longleftrightarrow> (\<exists>a. v = Ref a)"
  by (cases v) simp_all

lemma isArrayVal_object: "isArrayVal h v \<Longrightarrow> truthy v \<and> instanceofObject v"
  by (cases v) simp_all

lemma objValueOf_extends: "objValueOf h v = (h1, ob) \<Longrightarrow> extends h h1"
  by (auto simp: objValueOf_def alloc_def extends_refl extends_append split: if_splits)

section \<open>Properties of \<open>mergeDefault\<close>\<close>

text \<open>
  The loop body, branch by branch. An array is an object, so the test for an object
  takes every array default: the branch for arrays is never reached.
\<close>

lemma mergeDefault_for_object:
  assumes "getProp h defaultData key = Ref a"
  shows "mergeDefault_for rec h data defaultData result (key # rest) =
     (case rec (fst (objValueOf h (getProp h data key))) (snd (objValueOf h (getProp h data key))) a of
        None \<Rightarrow> None
      | Some (Inl e) \<Rightarrow> Some (Inl e)
      | Some (Inr (h2, merged)) \<Rightarrow>
          mergeDefault_for rec (setProp h2 result key (Ref merged)) data defaultData result rest)"
  using assms by (simp add: Let_def split_beta)

lemma mergeDefault_for_scalar:
  assumes "\<not> instanceofObject (getProp h defaultData key)"
  shows "mergeDefault_for rec h data defaultData result (key # rest) =
     mergeDefault_for rec
       (setProp h result key
          (if getProp h data key = Undefined then getProp h defaultData key
           else getProp h data key))
       data defaultData result rest"
  using assms isArrayVal_object [of h "getProp h defaultData key"]
  by (auto simp: Let_def)

declare mergeDefault_for.simps(2) [simp del]

text \<open>A call allocates and writes to what it allocated; it never throws.\<close>

lemma mergeDefault_for_object_run:
  assumes "getProp h defaultData key = Ref a"
    and "mergeDefault_for rec h data defaultData result (key # rest) = Some (Inr h')"
  obtains h1 ob h2 merged where
    "objValueOf h (getProp h data key) = (h1, ob)"
    "rec h1 ob a = Some (Inr (h2, merged))"
    "mergeDefault_for rec (setProp h2 result key (Ref merged)) data defaultData result rest
       = Some (Inr h')"
  using assms
  by (cases "objValueOf h (getProp h data key)")
     (auto simp: mergeDefault_for_object split: option.splits sum.splits)

lemma mergeDefault_for_extends:
  assumes rec: "\<And>h a b h' r. rec h a b = Some (Inr (h', r)) \<Longrightarrow> extends h h'"
    and run: "mergeDefault_for rec h data defaultData result ks = Some (Inr h')"
    and inv: "extends h0 h" "length h0 \<le> result"
  shows "extends h0 h'"
  using run inv
proof (induction ks arbitrary: h)
  case Nil
  then show ?case by simp
next
  case (Cons key rest)
  show ?case
  proof (cases "instanceofObject (getProp h defaultData key)")
    case True
    then obtain a where Ref: "getProp h defaultData key = Ref a"
      by (auto simp: instanceofObject_iff)
    from Ref Cons.prems(1) obtain h1 ob h2 merged where
      ov: "objValueOf h (getProp h data key) = (h1, ob)" and
      call: "rec h1 ob a = Some (Inr (h2, merged))" and
      rest: "mergeDefault_for rec (setProp h2 result key (Ref merged)) data defaultData result rest
               = Some (Inr h')"
      by (rule mergeDefault_for_object_run)
    have "extends h0 h2"
      using Cons.prems(2) objValueOf_extends [OF ov] rec [OF call] extends_trans by blast
    then have "extends h0 (setProp h2 result key (Ref merged))"
      using Cons.prems(3) by (rule extends_setProp)
    then show ?thesis
      using Cons.IH rest Cons.prems(3) by blast
  next
    case False
    from Cons.prems(1) have
      "mergeDefault_for rec
         (setProp h result key
            (if getProp h data key = Undefined then getProp h defaultData key
             else getProp h data key))
         data defaultData result rest = Some (Inr h')"
      by (simp only: mergeDefault_for_scalar [OF False])
    then show ?thesis
      using Cons.IH Cons.prems(2,3) extends_setProp by blast
  qed
qed

lemma mergeDefault_extends:
  "mergeDefault n h data defaultData = Some (Inr (h', result)) \<Longrightarrow>
   extends h h' \<and> result = length h"
proof (induction n arbitrary: h data defaultData h' result)
  case 0
  then show ?case by simp
next
  case (Suc n)
  from Suc.prems have r: "result = length h" and
    run: "mergeDefault_for (mergeDefault n) (h @ [emptyObject]) data defaultData (length h)
            (dedup (keys h data @ keys h defaultData)) = Some (Inr h')"
    by (auto simp: alloc_def Let_def split: option.splits sum.splits)
  have "extends h h'"
    using run
  proof (rule mergeDefault_for_extends [rotated])
    show "extends h (h @ [emptyObject])" by (rule extends_append)
  qed (use Suc.IH in auto)
  with r show ?case by simp
qed

lemma mergeDefault_for_never_throws:
  assumes rec: "\<And>h a b e. rec h a b \<noteq> Some (Inl e)"
  shows "mergeDefault_for rec h data defaultData result ks \<noteq> Some (Inl e)"
proof (induction ks arbitrary: h)
  case Nil
  show ?case by simp
next
  case (Cons key rest)
  show ?case
  proof (cases "instanceofObject (getProp h defaultData key)")
    case True
    then obtain a where Ref: "getProp h defaultData key = Ref a"
      by (auto simp: instanceofObject_iff)
    show ?thesis
      using rec Cons.IH
      by (auto simp: mergeDefault_for_object [OF Ref] split: option.splits sum.splits)
  next
    case False
    show ?thesis
      using Cons.IH by (simp add: mergeDefault_for_scalar [OF False])
  qed
qed

lemma mergeDefault_never_throws: "mergeDefault n h data defaultData \<noteq> Some (Inl e)"
proof (induction n arbitrary: h data defaultData e)
  case 0
  show ?case by simp
next
  case (Suc n)
  show ?case
    using mergeDefault_for_never_throws [of "mergeDefault n", OF Suc.IH]
    by (auto simp: alloc_def Let_def split: option.splits sum.splits)
qed

lemma mergeDefault_for_step:
  assumes rec: "\<And>h a b h' r. rec h a b = Some (Inr (h', r)) \<Longrightarrow> extends h h'"
    and run: "mergeDefault_for rec h data defaultData result (key # rest) = Some (Inr h')"
  obtains hm v where
    "extends h hm"
    "mergeDefault_for rec (setProp hm result key v) data defaultData result rest = Some (Inr h')"
    "\<not> instanceofObject (getProp h defaultData key) \<longrightarrow>
       v = (if getProp h data key = Undefined then getProp h defaultData key
            else getProp h data key)"
proof (cases "instanceofObject (getProp h defaultData key)")
  case True
  then obtain a where Ref: "getProp h defaultData key = Ref a"
    by (auto simp: instanceofObject_iff)
  from Ref run obtain h1 ob h2 merged where
    ov: "objValueOf h (getProp h data key) = (h1, ob)" and
    call: "rec h1 ob a = Some (Inr (h2, merged))" and
    rest: "mergeDefault_for rec (setProp h2 result key (Ref merged)) data defaultData result rest
             = Some (Inr h')"
    by (rule mergeDefault_for_object_run)
  have "extends h h2"
    using objValueOf_extends [OF ov] rec [OF call] by (rule extends_trans)
  then show ?thesis
    using rest True that by blast
next
  case False
  from run have
    "mergeDefault_for rec
       (setProp h result key
          (if getProp h data key = Undefined then getProp h defaultData key
           else getProp h data key))
       data defaultData result rest = Some (Inr h')"
    by (simp only: mergeDefault_for_scalar [OF False])
  then show ?thesis
    using extends_refl that by blast
qed

lemma mergeDefault_for_result:
  assumes rec: "\<And>h a b h' r. rec h a b = Some (Inr (h', r)) \<Longrightarrow> extends h h'"
    and run: "mergeDefault_for rec h data defaultData result ks = Some (Inr h')"
    and inv: "result < length h" "\<not> frozen (h ! result)" "data < length h" "defaultData < length h"
      "data \<noteq> result" "defaultData \<noteq> result"
  shows "result < length h' \<and> \<not> frozen (h' ! result) \<and> isArray (h' ! result) = isArray (h ! result) \<and>
     set (keys h' result) = set (keys h result) \<union> set ks \<and>
     (\<forall>k. k \<notin> set ks \<longrightarrow> getProp h' result k = getProp h result k) \<and>
     (\<forall>k\<in>set ks. \<not> instanceofObject (getProp h defaultData k) \<longrightarrow>
        getProp h' result k =
          (if getProp h data k = Undefined then getProp h defaultData k else getProp h data k))"
  using run inv
proof (induction ks arbitrary: h)
  case Nil
  then show ?case by simp
next
  case (Cons key rest)
  from rec Cons.prems(1) obtain hm v where
    ext: "extends h hm" and
    rest: "mergeDefault_for rec (setProp hm result key v) data defaultData result rest
             = Some (Inr h')" and
    val: "\<not> instanceofObject (getProp h defaultData key) \<longrightarrow>
       v = (if getProp h data key = Undefined then getProp h defaultData key
            else getProp h data key)"
    by (rule mergeDefault_for_step)
  let ?hn = "setProp hm result key v"
  from ext Cons.prems have
    same_r: "hm ! result = h ! result" and same_d: "hm ! data = h ! data" and
    same_dd: "hm ! defaultData = h ! defaultData" and
    len: "result < length hm" "data < length hm" "defaultData < length hm"
    by (auto simp: extends_nth)
  have nf: "\<not> frozen (hm ! result)" using same_r Cons.prems(3) by simp
  have n_r: "?hn ! result = (h ! result)\<lparr>props := AList.update key v (props (h ! result))\<rparr>"
    using setProp_nth_same [OF len(1) nf] same_r by simp
  have n_d: "?hn ! data = h ! data"
    using setProp_nth_other [of result data hm key v] Cons.prems(6) same_d by simp
  have n_dd: "?hn ! defaultData = h ! defaultData"
    using setProp_nth_other [of result defaultData hm key v] Cons.prems(7) same_dd by simp
  have n_keys: "set (keys ?hn result) = insert key (set (keys h result))"
    using keys_setProp [OF len(1) nf] keys_same_object [OF same_r] by simp
  have n_get: "\<And>k. getProp ?hn result k = (if k = key then v else getProp h result k)"
    using getProp_setProp [OF len(1) nf] getProp_same_object [OF same_r] by simp
  have n_gd: "\<And>k. getProp ?hn data k = getProp h data k"
    using getProp_same_object [OF n_d] by simp
  have n_gdd: "\<And>k. getProp ?hn defaultData k = getProp h defaultData k"
    using getProp_same_object [OF n_dd] by simp
  have IH: "result < length h' \<and> \<not> frozen (h' ! result) \<and>
     isArray (h' ! result) = isArray (?hn ! result) \<and>
     set (keys h' result) = set (keys ?hn result) \<union> set rest \<and>
     (\<forall>k. k \<notin> set rest \<longrightarrow> getProp h' result k = getProp ?hn result k) \<and>
     (\<forall>k\<in>set rest. \<not> instanceofObject (getProp ?hn defaultData k) \<longrightarrow>
        getProp h' result k =
          (if getProp ?hn data k = Undefined then getProp ?hn defaultData k
           else getProp ?hn data k))"
  proof (rule Cons.IH [OF rest])
    show "result < length ?hn" using len(1) by (simp add: length_setProp)
    show "\<not> frozen (?hn ! result)" using n_r Cons.prems(3) by simp
    show "data < length ?hn" using len(2) by (simp add: length_setProp)
    show "defaultData < length ?hn" using len(3) by (simp add: length_setProp)
  qed (use Cons.prems in auto)
  have c1: "result < length h' \<and> \<not> frozen (h' ! result)" using IH by simp
  have c2: "isArray (h' ! result) = isArray (h ! result)" using IH n_r by simp
  have c3: "set (keys h' result) = set (keys h result) \<union> set (key # rest)"
    using IH n_keys by auto
  have c4: "\<forall>k. k \<notin> set (key # rest) \<longrightarrow> getProp h' result k = getProp h result k"
    using IH n_get by simp
  have c5: "\<forall>k\<in>set (key # rest). \<not> instanceofObject (getProp h defaultData k) \<longrightarrow>
        getProp h' result k =
          (if getProp h data k = Undefined then getProp h defaultData k else getProp h data k)"
  proof (intro ballI impI)
    fix k assume k: "k \<in> set (key # rest)" and sc: "\<not> instanceofObject (getProp h defaultData k)"
    show "getProp h' result k =
          (if getProp h data k = Undefined then getProp h defaultData k else getProp h data k)"
    proof (cases "k \<in> set rest")
      case True
      with IH sc show ?thesis by (simp add: n_gd n_gdd)
    next
      case False
      with k have kk: "k = key" by simp
      from False IH have "getProp h' result k = getProp ?hn result k" by simp
      with kk n_get val sc show ?thesis by simp
    qed
  qed
  from c1 c2 c3 c4 c5 show ?case by blast
qed

lemma mergeDefault_for_total:
  assumes rec_total: "\<And>h d a. acyclicWithin n h (Ref a) \<Longrightarrow> \<exists>h' r. rec h d a = Some (Inr (h', r))"
    and rec: "\<And>h a b h' r. rec h a b = Some (Inr (h', r)) \<Longrightarrow> extends h h'"
    and kids: "\<And>k a. getProp h0 defaultData k = Ref a \<Longrightarrow> acyclicWithin n h0 (Ref a)"
    and inv: "extends h0 h" "length h0 \<le> result" "defaultData < length h0"
  shows "\<exists>h'. mergeDefault_for rec h data defaultData result ks = Some (Inr h')"
  using inv
proof (induction ks arbitrary: h)
  case Nil
  show ?case by simp
next
  case (Cons key rest)
  have same: "h ! defaultData = h0 ! defaultData"
    using Cons.prems by (auto simp: extends_nth)
  show ?case
  proof (cases "instanceofObject (getProp h defaultData key)")
    case True
    then obtain a where Ref: "getProp h defaultData key = Ref a"
      by (auto simp: instanceofObject_iff)
    obtain h1 ob where ov: "objValueOf h (getProp h data key) = (h1, ob)"
      by (cases "objValueOf h (getProp h data key)")
    have e1: "extends h0 h1"
      using Cons.prems(1) objValueOf_extends [OF ov] by (rule extends_trans)
    have "acyclicWithin n h0 (Ref a)"
      using kids Ref getProp_same_object [OF same] by simp
    then have "acyclicWithin n h1 (Ref a)"
      using e1 by (rule acyclicWithin_extends)
    then obtain h2 merged where call: "rec h1 ob a = Some (Inr (h2, merged))"
      using rec_total by blast
    have "extends h0 h2" using e1 rec [OF call] by (rule extends_trans)
    then have "extends h0 (setProp h2 result key (Ref merged))"
      using Cons.prems(2) by (rule extends_setProp)
    then have "\<exists>h'. mergeDefault_for rec (setProp h2 result key (Ref merged))
                 data defaultData result rest = Some (Inr h')"
      using Cons.prems(2,3) by (rule Cons.IH)
    then show ?thesis
      by (simp add: mergeDefault_for_object [OF Ref] ov call)
  next
    case False
    have "extends h0 (setProp h result key
          (if getProp h data key = Undefined then getProp h defaultData key
           else getProp h data key))"
      using Cons.prems(1,2) by (rule extends_setProp)
    then show ?thesis
      using Cons.IH Cons.prems(2,3) by (simp only: mergeDefault_for_scalar [OF False])
  qed
qed

lemma mergeDefault_total:
  "acyclicWithin n h (Ref defaultData) \<Longrightarrow>
   \<exists>h' result. mergeDefault n h data defaultData = Some (Inr (h', result))"
proof (induction n arbitrary: h data defaultData)
  case 0
  then show ?case by simp
next
  case (Suc n)
  have "\<exists>h'. mergeDefault_for (mergeDefault n) (h @ [emptyObject]) data defaultData (length h)
            (dedup (keys h data @ keys h defaultData)) = Some (Inr h')"
  proof (rule mergeDefault_for_total [where n = n and ?h0.0 = h])
    show "\<And>h d a. acyclicWithin n h (Ref a) \<Longrightarrow> \<exists>h' r. mergeDefault n h d a = Some (Inr (h', r))"
      using Suc.IH by blast
    show "\<And>h a b h' r. mergeDefault n h a b = Some (Inr (h', r)) \<Longrightarrow> extends h h'"
      using mergeDefault_extends by blast
    show "\<And>k a. getProp h defaultData k = Ref a \<Longrightarrow> acyclicWithin n h (Ref a)"
      using Suc.prems acyclicWithin_child by blast
    show "extends h (h @ [emptyObject])" by (rule extends_append)
    show "defaultData < length h" using Suc.prems by (rule acyclicWithin_bound)
  qed simp
  then show ?case
    by (auto simp: alloc_def Let_def)
qed

lemma getProp_absent: "k \<notin> set (keys h a) \<Longrightarrow> getProp h a k = Undefined"
proof -
  assume "k \<notin> set (keys h a)"
  then have "map_of (props (h ! a)) k = None"
    by (simp add: keys_def map_of_eq_None_iff)
  then show ?thesis by (simp add: getProp_def)
qed

lemma mergeDefault_for_length:
  assumes rec: "\<And>h a b h' r. rec h a b = Some (Inr (h', r)) \<Longrightarrow> extends h h'"
    and run: "mergeDefault_for rec h data defaultData result ks = Some (Inr h')"
  shows "length h \<le> length h'"
  using run
proof (induction ks arbitrary: h)
  case Nil
  then show ?case by simp
next
  case (Cons key rest)
  from rec Cons.prems obtain hm v where
    ext: "extends h hm" and
    rest: "mergeDefault_for rec (setProp hm result key v) data defaultData result rest
             = Some (Inr h')"
    by (rule mergeDefault_for_step)
  from Cons.IH [OF rest] ext show ?case
    by (simp add: length_setProp extends_nth)
qed

lemma mergeDefault_Suc_run:
  assumes "mergeDefault n h data defaultData = Some (Inr (h', result))"
  obtains m where "n = Suc m" "result = length h"
    "mergeDefault_for (mergeDefault m) (h @ [emptyObject]) data defaultData (length h)
       (dedup (keys h data @ keys h defaultData)) = Some (Inr h')"
  using assms
  by (cases n) (auto simp: alloc_def Let_def split: option.splits sum.splits)

text \<open>
  Claim C3, and where the code departs from it. The keys of the loop are the own keys of
  the two objects (\<open>Object.keys\<close>, l.57), but the values are read with \<open>data[key]\<close> and
  \<open>defaultData[key]\<close> (l.59-60), which also find inherited properties, and the result is
  written with \<open>result[key] = ...\<close>, which runs the setter of \<open>__proto__\<close>. So, at a key
  that names a property of \<open>Object.prototype\<close>, the result is not the one the claim
  describes:

  \<^item> \<open>mergeDefault({}, {toString: "x"})\<close>: \<open>value = data["toString"]\<close> is the inherited
    function, not \<open>undefined\<close>; the default \<open>"x"\<close> is not an object, so l.96 stores
    \<open>value === undefined ? defaultValue : value\<close>, the function. The key is absent from
    the data and the result does not hold the default \<open>"x"\<close>. (The same with
    \<open>{constructor: "c"}\<close>, where the result holds the function \<open>Object\<close>.)
  \<^item> \<open>mergeDefault(JSON.parse('{"__proto__": 1}'), {})\<close>: the key \<open>__proto__\<close> is an own
    key of the data; \<open>defaultData["__proto__"]\<close> is \<open>Object.prototype\<close>, which is truthy
    and not an instance of \<open>Object\<close>, so l.96 runs \<open>result["__proto__"] = 1\<close>, which the
    setter ignores: the result has no key \<open>__proto__\<close>. (With the instance of a class as
    the default, \<open>defaultData["__proto__"]\<close> is the prototype of the class, l.66 runs
    \<open>result["__proto__"] = {}\<close>, and the result has no such key either.)

  Both are outside the model, whose reads find own properties only. On the inputs of
  the model, where no key names an inherited property, the code does what the claim
  says at the top level: for an acyclic default object, \<open>mergeDefault(data, defaultData)\<close>
  returns an object that has every key of \<open>defaultData\<close> and every key of \<open>data\<close>, and no
  other; at every key whose default value is not an object, the result holds the data's
  value when that is defined and the default value when it is \<open>undefined\<close>.
\<close>

lemma mergeDefault_own_keys_and_scalars:
  assumes "acyclicWithin n h (Ref defaultData)" and "data < length h"
  shows "\<exists>h' result. mergeDefault n h data defaultData = Some (Inr (h', result)) \<and>
     set (keys h' result) = set (keys h data) \<union> set (keys h defaultData) \<and>
     (\<forall>k. \<not> instanceofObject (getProp h defaultData k) \<longrightarrow>
        getProp h' result k =
          (if getProp h data k = Undefined then getProp h defaultData k else getProp h data k))"
proof -
  from assms(1) obtain h' result where
    call: "mergeDefault n h data defaultData = Some (Inr (h', result))"
    using mergeDefault_total by blast
  then obtain m where r: "result = length h" and
    run: "mergeDefault_for (mergeDefault m) (h @ [emptyObject]) data defaultData (length h)
       (dedup (keys h data @ keys h defaultData)) = Some (Inr h')"
    by (rule mergeDefault_Suc_run)
  let ?h1 = "h @ [emptyObject]"
  let ?ks = "dedup (keys h data @ keys h defaultData)"
  have dd: "defaultData < length h" using assms(1) by (rule acyclicWithin_bound)
  have rec: "\<And>h a b h' r. mergeDefault m h a b = Some (Inr (h', r)) \<Longrightarrow> extends h h'"
    using mergeDefault_extends by blast
  have res: "set (keys h' (length h)) = set (keys ?h1 (length h)) \<union> set ?ks \<and>
     (\<forall>k. k \<notin> set ?ks \<longrightarrow> getProp h' (length h) k = getProp ?h1 (length h) k) \<and>
     (\<forall>k\<in>set ?ks. \<not> instanceofObject (getProp ?h1 defaultData k) \<longrightarrow>
        getProp h' (length h) k =
          (if getProp ?h1 data k = Undefined then getProp ?h1 defaultData k
           else getProp ?h1 data k))"
    using mergeDefault_for_result [OF rec run] assms(2) dd
    by (simp add: emptyObject_def)
  have gd: "\<And>k. getProp ?h1 data k = getProp h data k"
    using assms(2) by (simp add: getProp_def nth_append)
  have gdd: "\<And>k. getProp ?h1 defaultData k = getProp h defaultData k"
    using dd by (simp add: getProp_def nth_append)
  have fresh: "keys ?h1 (length h) = []" "\<And>k. getProp ?h1 (length h) k = Undefined"
    by (simp_all add: keys_def getProp_def emptyObject_def)
  have k1: "set (keys h' result) = set (keys h data) \<union> set (keys h defaultData)"
    using res r by (simp add: fresh set_dedup)
  have k2: "getProp h' result k =
          (if getProp h data k = Undefined then getProp h defaultData k else getProp h data k)"
    if sc: "\<not> instanceofObject (getProp h defaultData k)" for k
  proof (cases "k \<in> set ?ks")
    case True
    with res sc show ?thesis by (simp add: r gd gdd)
  next
    case False
    then have "getProp h data k = Undefined" "getProp h defaultData k = Undefined"
      by (simp_all add: set_dedup getProp_absent)
    moreover from False res have "getProp h' result k = Undefined"
      by (simp add: r fresh)
    ultimately show ?thesis by simp
  qed
  from call k1 k2 show ?thesis by blast
qed

lemma mergeDefault_own_keys_and_scalars_example:
  "acyclicWithin 3 heap_config (Ref 1) \<and> (0::nat) < length heap_config \<and>
   (\<exists>h' result. mergeDefault 3 heap_config 0 1 = Some (Inr (h', result)) \<and>
      set (keys h' result) = {''port'', ''extra'', ''host'', ''db''} \<and>
      getProp h' result ''port'' = Num 8080 \<and>
      getProp h' result ''extra'' = Str ''x'' \<and>
      getProp h' result ''host'' = Str ''localhost'')"
proof -
  have a: "acyclicWithin 3 heap_config (Ref 1)" by code_simp
  have l: "(0::nat) < length heap_config" by (simp add: heap_config_def)
  from mergeDefault_own_keys_and_scalars [OF a l] obtain h' result where
    call: "mergeDefault 3 heap_config 0 1 = Some (Inr (h', result))" and
    ks: "set (keys h' result) = set (keys heap_config 0) \<union> set (keys heap_config 1)" and
    vs: "\<forall>k. \<not> instanceofObject (getProp heap_config 1 k) \<longrightarrow>
        getProp h' result k =
          (if getProp heap_config 0 k = Undefined then getProp heap_config 1 k
           else getProp heap_config 0 k)"
    by blast
  have "set (keys h' result) = {''port'', ''extra'', ''host'', ''db''}"
    using ks by (auto simp: keys_def heap_config_def)
  moreover have "getProp h' result ''port'' = Num 8080"
    using vs [rule_format, of "''port''"] by (simp add: getProp_def heap_config_def)
  moreover have "getProp h' result ''extra'' = Str ''x''"
    using vs [rule_format, of "''extra''"] by (simp add: getProp_def heap_config_def)
  moreover have "getProp h' result ''host'' = Str ''localhost''"
    using vs [rule_format, of "''host''"] by (simp add: getProp_def heap_config_def)
  ultimately show ?thesis using a l call by blast
qed

text \<open>
  Claim C9. Whenever \<open>mergeDefault\<close> returns, every object that existed before the call,
  the two arguments and all they refer to among them, is what it was, and the result is an
  object allocated by the call; and the call does return when the default object is acyclic.
\<close>

theorem mergeDefault_inputs_unchanged:
  "(\<forall>h' result. mergeDefault n h data defaultData = Some (Inr (h', result)) \<longrightarrow>
      (\<forall>a<length h. h' ! a = h ! a) \<and> result = length h \<and> result < length h') \<and>
   (acyclicWithin n h (Ref defaultData) \<longrightarrow>
      (\<exists>h' result. mergeDefault n h data defaultData = Some (Inr (h', result))))"
proof -
  have "(\<forall>a<length h. h' ! a = h ! a) \<and> result = length h \<and> result < length h'"
    if call: "mergeDefault n h data defaultData = Some (Inr (h', result))" for h' result
  proof -
    from call obtain m where r: "result = length h" and
      run: "mergeDefault_for (mergeDefault m) (h @ [emptyObject]) data defaultData (length h)
         (dedup (keys h data @ keys h defaultData)) = Some (Inr h')"
      by (rule mergeDefault_Suc_run)
    have rec: "\<And>h a b h' r. mergeDefault m h a b = Some (Inr (h', r)) \<Longrightarrow> extends h h'"
      using mergeDefault_extends by blast
    have "length (h @ [emptyObject]) \<le> length h'"
      using rec run by (rule mergeDefault_for_length)
    with mergeDefault_extends [OF call] r show ?thesis
      by (simp add: extends_nth)
  qed
  then show ?thesis
    using mergeDefault_total by blast
qed

theorem mergeDefault_inputs_unchanged_witness:
  "acyclicWithin 3 heap_config (Ref 1) \<and>
   (\<exists>h' result. mergeDefault 3 heap_config 0 1 = Some (Inr (h', result)) \<and>
      h' ! 0 = heap_config ! 0 \<and> h' ! 1 = heap_config ! 1 \<and> h' ! 2 = heap_config ! 2 \<and>
      result = 3 \<and> result < length h')"
proof -
  have a: "acyclicWithin 3 heap_config (Ref 1)" by code_simp
  have l: "length heap_config = 3" by (simp add: heap_config_def)
  from mergeDefault_inputs_unchanged [of 3 heap_config 0 1] a obtain h' result where
    call: "mergeDefault 3 heap_config 0 1 = Some (Inr (h', result))" and
    fr: "(\<forall>a<length heap_config. h' ! a = heap_config ! a) \<and>
         result = length heap_config \<and> result < length h'"
    by blast
  then show ?thesis using a l by auto
qed

text \<open>
  Claim C1, at inputs where the code departs from it. With the default \<open>{k: [1, 2, 3]}\<close>
  and the data \<open>{}\<close>, the result holds at \<open>k\<close> a new object with the keys \<open>0\<close>, \<open>1\<close>,
  \<open>2\<close> that is not an array; with the data \<open>{k: [7, 8]}\<close> the result at \<open>k\<close> is that same
  index-keyed object built from the default, and the data's array is not used.
\<close>

theorem mergeDefault_array_default_eval:
  "mergeDefault 2 heap_absent_array 0 1 =
     Some (Inr (heap_absent_array @
       [\<lparr>isArray = False, frozen = False, props = [(''k'', Ref 5)]\<rparr>,
        \<lparr>isArray = False, frozen = False, props = []\<rparr>,
        \<lparr>isArray = False, frozen = False,
          props = [(''0'', Num 1), (''1'', Num 2), (''2'', Num 3)]\<rparr>], 3)) \<and>
   mergeDefault 2 heap_data_array 0 1 =
     Some (Inr (heap_data_array @
       [\<lparr>isArray = False, frozen = False, props = [(''k'', Ref 6)]\<rparr>,
        \<lparr>isArray = False, frozen = False, props = []\<rparr>,
        \<lparr>isArray = False, frozen = False,
          props = [(''0'', Num 1), (''1'', Num 2), (''2'', Num 3)]\<rparr>], 4))"
  by code_simp

text \<open>
  Claim C2, at inputs where the code departs from it. With the default \<open>{k: []}\<close> and the
  data \<open>{k: [{a: 1}]}\<close> the call returns \<open>{k: {}}\<close>; with the default \<open>{k: [{a: 1}]}\<close>
  and the data \<open>{}\<close> it returns \<open>{k: {0: {a: 1}}}\<close>. Neither call throws.
\<close>

theorem mergeDefault_object_array_eval:
  "mergeDefault 2 heap_data_object_array 0 1 =
     Some (Inr (heap_data_object_array @
       [\<lparr>isArray = False, frozen = False, props = [(''k'', Ref 7)]\<rparr>,
        \<lparr>isArray = False, frozen = False, props = []\<rparr>,
        \<lparr>isArray = False, frozen = False, props = []\<rparr>], 5)) \<and>
   mergeDefault 3 heap_default_object_array 0 1 =
     Some (Inr (heap_default_object_array @
       [\<lparr>isArray = False, frozen = False, props = [(''k'', Ref 6)]\<rparr>,
        \<lparr>isArray = False, frozen = False, props = []\<rparr>,
        \<lparr>isArray = False, frozen = False, props = [(''0'', Ref 8)]\<rparr>,
        \<lparr>isArray = False, frozen = False, props = []\<rparr>,
        \<lparr>isArray = False, frozen = False, props = [(''a'', Num 1)]\<rparr>], 4))"
  by code_simp


section \<open>Properties of \<open>mergeData\<close>\<close>

declare mergeData_forEach.simps(2) [simp del]

lemma mergeData_forEach_step:
  assumes run: "mergeData_forEach rec h data1 data2 out (key # rest) = Some h'"
  obtains hm v where
    "mergeData_forEach rec (setProp hm out key v) data1 data2 out rest = Some h'"
    "(\<exists>a1 a2. getProp h data1 key = Ref a1 \<and> getProp h data2 key = Ref a2 \<and>
        rec h a1 a2 = Some (hm, addrOf v) \<and> v = Ref (addrOf v)) \<or>
     (hm = h \<and> \<not> (instanceofObject (getProp h data1 key) \<and>
                    instanceofObject (getProp h data2 key)))"
proof (cases "instanceofObject (getProp h data1 key) \<and> instanceofObject (getProp h data2 key)")
  case True
  then obtain a1 a2 where r: "getProp h data1 key = Ref a1" "getProp h data2 key = Ref a2"
    by (auto simp: instanceofObject_iff)
  with run obtain hm merged where
    "rec h a1 a2 = Some (hm, merged)"
    "mergeData_forEach rec (setProp hm out key (Ref merged)) data1 data2 out rest = Some h'"
    by (auto simp: mergeData_forEach.simps(2) split: option.splits)
  with r that [of hm "Ref merged"] show ?thesis by simp
next
  case False
  then have nb: "\<not> (typeof (getProp h data1 key) = ''object'' \<and>
      typeof (getProp h data2 key) = ''object'' \<and>
      getProp h data1 key \<noteq> Null \<and> getProp h data2 key \<noteq> Null)"
    by (cases "getProp h data1 key"; cases "getProp h data2 key") simp_all
  from run nb have "\<exists>v. mergeData_forEach rec (setProp h out key v) data1 data2 out rest = Some h'"
    by (auto simp: mergeData_forEach.simps(2) Let_def split: if_splits)
  with False that show ?thesis by blast
qed

lemma mergeData_forEach_frame:
  assumes rec: "\<And>h a b h' m. rec h a b = Some (h', m) \<Longrightarrow> extends h h'"
    and run: "mergeData_forEach rec h data1 data2 out ks = Some h'"
  shows "length h \<le> length h' \<and> (\<forall>a<length h. a \<noteq> out \<longrightarrow> h' ! a = h ! a)"
  using run
proof (induction ks arbitrary: h)
  case Nil
  then show ?case by simp
next
  case (Cons key rest)
  from Cons.prems obtain hm v where
    rest: "mergeData_forEach rec (setProp hm out key v) data1 data2 out rest = Some h'" and
    alt: "(\<exists>a1 a2. getProp h data1 key = Ref a1 \<and> getProp h data2 key = Ref a2 \<and>
        rec h a1 a2 = Some (hm, addrOf v) \<and> v = Ref (addrOf v)) \<or>
     (hm = h \<and> \<not> (instanceofObject (getProp h data1 key) \<and>
                    instanceofObject (getProp h data2 key)))"
    by (rule mergeData_forEach_step)
  from alt rec have ext: "extends h hm"
    by (auto simp: extends_refl)
  from Cons.IH [OF rest] have
    "length hm \<le> length h' \<and> (\<forall>a<length hm. a \<noteq> out \<longrightarrow> h' ! a = setProp hm out key v ! a)"
    by (simp add: length_setProp)
  with ext show ?case
    by (auto simp: extends_nth setProp_nth_other)
qed

lemma mergeData_forEach_result:
  assumes rec: "\<And>h a b h' m. rec h a b = Some (h', m) \<Longrightarrow> extends h h'"
    and run: "mergeData_forEach rec h data1 data2 out ks = Some h'"
    and inv: "out < length h" "\<not> frozen (h ! out)"
  shows "out < length h' \<and> \<not> frozen (h' ! out) \<and>
     isArray (h' ! out) = isArray (h ! out) \<and>
     set (keys h' out) = set (keys h out) \<union> set ks \<and>
     (\<forall>k. k \<notin> set ks \<longrightarrow> getProp h' out k = getProp h out k)"
  using run inv
proof (induction ks arbitrary: h)
  case Nil
  then show ?case by simp
next
  case (Cons key rest)
  from Cons.prems(1) obtain hm v where
    rest: "mergeData_forEach rec (setProp hm out key v) data1 data2 out rest = Some h'" and
    alt: "(\<exists>a1 a2. getProp h data1 key = Ref a1 \<and> getProp h data2 key = Ref a2 \<and>
        rec h a1 a2 = Some (hm, addrOf v) \<and> v = Ref (addrOf v)) \<or>
     (hm = h \<and> \<not> (instanceofObject (getProp h data1 key) \<and>
                    instanceofObject (getProp h data2 key)))"
    by (rule mergeData_forEach_step)
  from alt rec have ext: "extends h hm"
    by (auto simp: extends_refl)
  let ?hn = "setProp hm out key v"
  from ext Cons.prems have same: "hm ! out = h ! out" and len: "out < length hm"
    by (auto simp: extends_nth)
  have nf: "\<not> frozen (hm ! out)" using same Cons.prems(3) by simp
  have n_r: "?hn ! out = (h ! out)\<lparr>props := AList.update key v (props (h ! out))\<rparr>"
    using setProp_nth_same [OF len nf] same by simp
  have n_keys: "set (keys ?hn out) = insert key (set (keys h out))"
    using keys_setProp [OF len nf] keys_same_object [OF same] by simp
  have n_get: "\<And>k. getProp ?hn out k = (if k = key then v else getProp h out k)"
    using getProp_setProp [OF len nf] getProp_same_object [OF same] by simp
  have IH: "out < length h' \<and> \<not> frozen (h' ! out) \<and>
     isArray (h' ! out) = isArray (?hn ! out) \<and>
     set (keys h' out) = set (keys ?hn out) \<union> set rest \<and>
     (\<forall>k. k \<notin> set rest \<longrightarrow> getProp h' out k = getProp ?hn out k)"
  proof (rule Cons.IH [OF rest])
    show "out < length ?hn" using len by (simp add: length_setProp)
    show "\<not> frozen (?hn ! out)" using n_r Cons.prems(3) by simp
  qed
  have c1: "out < length h' \<and> \<not> frozen (h' ! out)" using IH by simp
  have c2: "isArray (h' ! out) = isArray (h ! out)" using IH n_r by simp
  have c3: "set (keys h' out) = set (keys h out) \<union> set (key # rest)"
    using IH n_keys by auto
  have c4: "\<forall>k. k \<notin> set (key # rest) \<longrightarrow> getProp h' out k = getProp h out k"
    using IH n_get by simp
  from c1 c2 c3 c4 show ?case by blast
qed

lemma mergeData_Suc_run:
  assumes "mergeData n h data1 data2 = Some (h', out)"
  obtains m where "n = Suc m" "out = length h"
    "mergeData_forEach (mergeData m) (h @ [emptyObject]) data1 data2 (length h)
       (dedup (keys h data1 @ keys h data2)) = Some h'"
  using assms
  by (cases n) (auto simp: alloc_def Let_def split: option.splits)

lemma mergeData_satisfies_post:
  "mergeData n h data1 data2 = Some (h', out) \<Longrightarrow> mergeData_post h data1 data2 h' out"
proof (induction n arbitrary: h data1 data2 h' out)
  case 0
  then show ?case by simp
next
  case (Suc n)
  from Suc.prems obtain m where m: "Suc n = Suc m" and out: "out = length h" and
    run: "mergeData_forEach (mergeData m) (h @ [emptyObject]) data1 data2 (length h)
       (dedup (keys h data1 @ keys h data2)) = Some h'"
    by (rule mergeData_Suc_run)
  have rec: "\<And>h a b h' r. mergeData m h a b = Some (h', r) \<Longrightarrow> extends h h'"
    using Suc.IH m by (auto simp: mergeData_post_def)
  let ?h1 = "h @ [emptyObject]"
  have fr: "length ?h1 \<le> length h' \<and> (\<forall>a<length ?h1. a \<noteq> length h \<longrightarrow> h' ! a = ?h1 ! a)"
    using rec run by (rule mergeData_forEach_frame)
  then have ext: "extends h h'"
    by (auto simp: extends_nth nth_append)
  have res: "length h < length h' \<and> \<not> frozen (h' ! length h) \<and>
     isArray (h' ! length h) = isArray (?h1 ! length h) \<and>
     set (keys h' (length h)) = set (keys ?h1 (length h)) \<union> set (dedup (keys h data1 @ keys h data2)) \<and>
     (\<forall>k. k \<notin> set (dedup (keys h data1 @ keys h data2)) \<longrightarrow>
          getProp h' (length h) k = getProp ?h1 (length h) k)"
    using mergeData_forEach_result [OF rec run] by (simp add: emptyObject_def)
  then show ?case
    using ext out
    by (simp add: mergeData_post_def set_dedup keys_def emptyObject_def)
qed

lemma mergeData_forEach_object:
  assumes "getProp h data1 key = Ref a1" "getProp h data2 key = Ref a2"
  shows "mergeData_forEach rec h data1 data2 out (key # rest) =
     (case rec h a1 a2 of
        None \<Rightarrow> None
      | Some (h', merged) \<Rightarrow>
          mergeData_forEach rec (setProp h' out key (Ref merged)) data1 data2 out rest)"
  using assms by (simp add: mergeData_forEach.simps(2))

lemma mergeData_forEach_scalar:
  assumes "\<not> (instanceofObject (getProp h data1 key) \<and> instanceofObject (getProp h data2 key))"
  shows "mergeData_forEach rec h data1 data2 out (key # rest) =
     mergeData_forEach rec
       (setProp h out key
          (if getProp h data2 key \<noteq> Undefined then getProp h data2 key
           else getProp h data1 key))
       data1 data2 out rest"
proof -
  from assms have nb: "\<not> (typeof (getProp h data1 key) = ''object'' \<and>
      typeof (getProp h data2 key) = ''object'' \<and>
      getProp h data1 key \<noteq> Null \<and> getProp h data2 key \<noteq> Null)"
    by (cases "getProp h data1 key"; cases "getProp h data2 key") simp_all
  then show ?thesis
    by (auto simp: mergeData_forEach.simps(2) Let_def)
qed

lemma mergeData_forEach_total:
  assumes rec_total: "\<And>h a b. acyclicWithin n h (Ref a) \<Longrightarrow> \<exists>h' m. rec h a b = Some (h', m)"
    and rec: "\<And>h a b h' m. rec h a b = Some (h', m) \<Longrightarrow> extends h h'"
    and kids: "\<And>k a. getProp h0 data1 k = Ref a \<Longrightarrow> acyclicWithin n h0 (Ref a)"
    and inv: "extends h0 h" "length h0 \<le> out" "data1 < length h0"
  shows "\<exists>h'. mergeData_forEach rec h data1 data2 out ks = Some h'"
  using inv
proof (induction ks arbitrary: h)
  case Nil
  show ?case by simp
next
  case (Cons key rest)
  have same: "h ! data1 = h0 ! data1"
    using Cons.prems by (auto simp: extends_nth)
  show ?case
  proof (cases "instanceofObject (getProp h data1 key) \<and> instanceofObject (getProp h data2 key)")
    case True
    then obtain a1 a2 where r: "getProp h data1 key = Ref a1" "getProp h data2 key = Ref a2"
      by (auto simp: instanceofObject_iff)
    have "acyclicWithin n h0 (Ref a1)"
      using kids r(1) getProp_same_object [OF same] by simp
    then have "acyclicWithin n h (Ref a1)"
      using Cons.prems(1) by (rule acyclicWithin_extends)
    then obtain hm merged where call: "rec h a1 a2 = Some (hm, merged)"
      using rec_total by blast
    have "extends h0 hm" using Cons.prems(1) rec [OF call] by (rule extends_trans)
    then have "extends h0 (setProp hm out key (Ref merged))"
      using Cons.prems(2) by (rule extends_setProp)
    then have "\<exists>h'. mergeData_forEach rec (setProp hm out key (Ref merged))
                 data1 data2 out rest = Some h'"
      using Cons.prems(2,3) by (rule Cons.IH)
    then show ?thesis
      by (simp add: mergeData_forEach_object [OF r] call)
  next
    case False
    have "extends h0 (setProp h out key
          (if getProp h data2 key \<noteq> Undefined then getProp h data2 key
           else getProp h data1 key))"
      using Cons.prems(1,2) by (rule extends_setProp)
    then show ?thesis
      using Cons.IH Cons.prems(2,3) by (simp only: mergeData_forEach_scalar [OF False])
  qed
qed

lemma mergeData_extends: "mergeData n h a b = Some (h', m) \<Longrightarrow> extends h h'"
  using mergeData_satisfies_post by (auto simp: mergeData_post_def)

lemma mergeData_total:
  "acyclicWithin n h (Ref data1) \<Longrightarrow> \<exists>h' out. mergeData n h data1 data2 = Some (h', out)"
proof (induction n arbitrary: h data1 data2)
  case 0
  then show ?case by simp
next
  case (Suc n)
  have "\<exists>h'. mergeData_forEach (mergeData n) (h @ [emptyObject]) data1 data2 (length h)
            (dedup (keys h data1 @ keys h data2)) = Some h'"
  proof (rule mergeData_forEach_total [where n = n and ?h0.0 = h])
    show "\<And>h a b. acyclicWithin n h (Ref a) \<Longrightarrow> \<exists>h' m. mergeData n h a b = Some (h', m)"
      using Suc.IH by blast
    show "\<And>h a b h' m. mergeData n h a b = Some (h', m) \<Longrightarrow> extends h h'"
      by (rule mergeData_extends)
    show "\<And>k a. getProp h data1 k = Ref a \<Longrightarrow> acyclicWithin n h (Ref a)"
      using Suc.prems acyclicWithin_child by blast
    show "extends h (h @ [emptyObject])" by (rule extends_append)
    show "data1 < length h" using Suc.prems by (rule acyclicWithin_bound)
  qed simp
  then show ?case
    by (auto simp: alloc_def Let_def)
qed

lemma mergeData_forEach_at_key:
  assumes rec: "\<And>h a b h' m. rec h a b = Some (h', m) \<Longrightarrow> mergeData_post h a b h' m"
    and run: "mergeData_forEach rec h data1 data2 out ks = Some h'"
    and k: "k \<in> set ks" "distinct ks"
    and inv: "out < length h" "\<not> frozen (h ! out)"
      "data1 < length h" "data2 < length h" "data1 \<noteq> out" "data2 \<noteq> out"
      "getProp h data1 k = Ref a1" "getProp h data2 k = Ref a2"
      "a1 < length h" "a2 < length h" "a1 \<noteq> out" "a2 \<noteq> out"
  shows "\<exists>m. getProp h' out k = Ref m \<and> length h \<le> m \<and> m < length h' \<and>
     \<not> isArray (h' ! m) \<and> set (keys h' m) = set (keys h a1) \<union> set (keys h a2) \<and>
     (\<exists>hi hm. rec hi a1 a2 = Some (hm, m))"
  using run k inv
proof (induction ks arbitrary: h)
  case Nil
  then show ?case by simp
next
  case (Cons key rest)
  have recx: "\<And>h a b h' m. rec h a b = Some (h', m) \<Longrightarrow> extends h h'"
    using rec by (simp add: mergeData_post_def)
  from Cons.prems(1) obtain hm v where
    rest: "mergeData_forEach rec (setProp hm out key v) data1 data2 out rest = Some h'" and
    alt: "(\<exists>a1 a2. getProp h data1 key = Ref a1 \<and> getProp h data2 key = Ref a2 \<and>
        rec h a1 a2 = Some (hm, addrOf v) \<and> v = Ref (addrOf v)) \<or>
     (hm = h \<and> \<not> (instanceofObject (getProp h data1 key) \<and>
                    instanceofObject (getProp h data2 key)))"
    by (rule mergeData_forEach_step)
  from alt recx have ext: "extends h hm"
    by (auto simp: extends_refl)
  let ?hn = "setProp hm out key v"
  from ext Cons.prems have same: "hm ! out = h ! out" "hm ! data1 = h ! data1"
      "hm ! data2 = h ! data2" "hm ! a1 = h ! a1" "hm ! a2 = h ! a2"
    and len: "out < length hm" "length h \<le> length hm"
    by (auto simp: extends_nth)
  have nf: "\<not> frozen (hm ! out)" using same(1) Cons.prems(5) by simp
  have n_out: "?hn ! out = (h ! out)\<lparr>props := AList.update key v (props (h ! out))\<rparr>"
    using setProp_nth_same [OF len(1) nf] same(1) by simp
  have n_other: "\<And>a. a \<noteq> out \<Longrightarrow> ?hn ! a = hm ! a"
    by (simp add: setProp_nth_other)
  have n_len: "length ?hn = length hm" by (simp add: length_setProp)
  have fr: "length ?hn \<le> length h' \<and> (\<forall>a<length ?hn. a \<noteq> out \<longrightarrow> h' ! a = ?hn ! a)"
    using recx rest by (rule mergeData_forEach_frame)
  show ?case
  proof (cases "key = k")
    case True
    with alt Cons.prems(10,11) have call: "rec h a1 a2 = Some (hm, addrOf v)" and v: "v = Ref (addrOf v)"
      by auto
    let ?m = "addrOf v"
    from rec [OF call] have post: "?m = length h" "?m < length hm" "\<not> isArray (hm ! ?m)"
      "set (keys hm ?m) = set (keys h a1) \<union> set (keys h a2)"
      unfolding mergeData_post_def by blast+
    have m_out: "?m \<noteq> out" using post(1) Cons.prems(4) by simp
    from True Cons.prems(3) have "k \<notin> set rest" by simp
    moreover have "out < length ?hn" "\<not> frozen (?hn ! out)"
      using len(1) n_len n_out Cons.prems(5) by simp_all
    ultimately have "getProp h' out k = getProp ?hn out k"
      using mergeData_forEach_result [OF recx rest] by simp
    also have "\<dots> = v"
      using getProp_setProp [OF len(1) nf, of key v k] True by simp
    finally have g: "getProp h' out k = Ref ?m" using v by simp
    have "h' ! ?m = ?hn ! ?m" using fr post(2) m_out n_len by simp
    then have obj: "h' ! ?m = hm ! ?m" using n_other [OF m_out] by simp
    have "?m < length h'" using fr post(2) n_len by simp
    with g post obj call show ?thesis
      by (auto simp: keys_def)
  next
    case False
    with Cons.prems(2,3) have kr: "k \<in> set rest" "distinct rest" by simp_all
    have "\<exists>m. getProp h' out k = Ref m \<and> length ?hn \<le> m \<and> m < length h' \<and>
       \<not> isArray (h' ! m) \<and> set (keys h' m) = set (keys ?hn a1) \<union> set (keys ?hn a2) \<and>
       (\<exists>hi hm. rec hi a1 a2 = Some (hm, m))"
    proof (rule Cons.IH [OF rest kr])
      show "out < length ?hn" using len(1) n_len by simp
      show "\<not> frozen (?hn ! out)" using n_out Cons.prems(5) by simp
      show "data1 < length ?hn" "data2 < length ?hn" "a1 < length ?hn" "a2 < length ?hn"
        using Cons.prems len(2) n_len by simp_all
      show "data1 \<noteq> out" "data2 \<noteq> out" "a1 \<noteq> out" "a2 \<noteq> out"
        using Cons.prems by simp_all
      have "?hn ! data1 = h ! data1" using n_other Cons.prems(8) same(2) by simp
      then show "getProp ?hn data1 k = Ref a1"
        using Cons.prems(10) by (simp add: getProp_def)
      have "?hn ! data2 = h ! data2" using n_other Cons.prems(9) same(3) by simp
      then show "getProp ?hn data2 k = Ref a2"
        using Cons.prems(11) by (simp add: getProp_def)
    qed
    moreover have "keys ?hn a1 = keys h a1" "keys ?hn a2 = keys h a2"
      using n_other Cons.prems(14,15) same(4,5) by (simp_all add: keys_def)
    ultimately show ?thesis
      using len(2) n_len by fastforce
  qed
qed

text \<open>
  Claim C10. When both inputs of \<open>mergeData\<close> hold an array at a key, the call (which
  returns when the first input is acyclic) merges the two arrays by a nested call of
  \<open>mergeData\<close>, as it does any two objects, and the result holds at that key a new object
  that is not an array and whose keys are the indices of either array. Merging \<open>[1, 2]\<close>
  with \<open>[3]\<close> gives \<open>{0: 3, 1: 2}\<close>.
\<close>

theorem mergeData_arrays_become_objects:
  assumes "acyclicWithin n h (Ref data1)" and "data2 < length h"
    and "getProp h data1 k = Ref a1" and "getProp h data2 k = Ref a2" and "a2 < length h"
    and "isArray (h ! a1)" and "isArray (h ! a2)"
  shows "\<exists>h' out m. mergeData n h data1 data2 = Some (h', out) \<and>
     getProp h' out k = Ref m \<and> length h < m \<and> m < length h' \<and>
     \<not> isArray (h' ! m) \<and> set (keys h' m) = set (keys h a1) \<union> set (keys h a2) \<and>
     (\<exists>n' hi hm. n = Suc n' \<and> mergeData n' hi a1 a2 = Some (hm, m))"
proof -
  from assms(1) obtain h' out where call: "mergeData n h data1 data2 = Some (h', out)"
    using mergeData_total by blast
  then obtain n' where n: "n = Suc n'" and out: "out = length h" and
    run: "mergeData_forEach (mergeData n') (h @ [emptyObject]) data1 data2 (length h)
       (dedup (keys h data1 @ keys h data2)) = Some h'"
    by (rule mergeData_Suc_run)
  let ?h1 = "h @ [emptyObject]"
  have d1: "data1 < length h" using assms(1) by (rule acyclicWithin_bound)
  have "acyclicWithin n' h (Ref a1)"
    using assms(1,3) n acyclicWithin_child by blast
  then have a1: "a1 < length h" by (rule acyclicWithin_bound)
  have "k \<in> set (keys h data1)"
    using assms(3) getProp_absent [of k h data1] by auto
  then have kin: "k \<in> set (dedup (keys h data1 @ keys h data2))"
    by (simp add: set_dedup)
  have "\<exists>m. getProp h' (length h) k = Ref m \<and> length ?h1 \<le> m \<and> m < length h' \<and>
     \<not> isArray (h' ! m) \<and> set (keys h' m) = set (keys ?h1 a1) \<union> set (keys ?h1 a2) \<and>
     (\<exists>hi hm. mergeData n' hi a1 a2 = Some (hm, m))"
  proof (rule mergeData_forEach_at_key [OF _ run kin distinct_dedup])
    show "\<And>h a b h' m. mergeData n' h a b = Some (h', m) \<Longrightarrow> mergeData_post h a b h' m"
      by (rule mergeData_satisfies_post)
    show "\<not> frozen (?h1 ! length h)" by (simp add: emptyObject_def)
    show "getProp ?h1 data1 k = Ref a1"
      using assms(3) d1 by (simp add: getProp_def nth_append)
    show "getProp ?h1 data2 k = Ref a2"
      using assms(4,2) by (simp add: getProp_def nth_append)
  qed (use d1 a1 assms(2,5) in simp_all)
  moreover have "keys ?h1 a1 = keys h a1" "keys ?h1 a2 = keys h a2"
    using a1 assms(5) by (simp_all add: keys_def nth_append)
  ultimately show ?thesis
    using call out n by fastforce
qed

theorem mergeData_arrays_become_objects_witness:
  "acyclicWithin 3 heap_merge_arrays (Ref 0) \<and>
   mergeData 3 heap_merge_arrays 0 1 =
     Some (heap_merge_arrays @
       [\<lparr>isArray = False, frozen = False, props = [(''k'', Ref 5)]\<rparr>,
        \<lparr>isArray = False, frozen = False, props = [(''0'', Num 3), (''1'', Num 2)]\<rparr>], 4) \<and>
   (\<exists>h' out m. mergeData 3 heap_merge_arrays 0 1 = Some (h', out) \<and>
      getProp h' out ''k'' = Ref m \<and> 4 < m \<and> \<not> isArray (h' ! m) \<and>
      set (keys h' m) = {''0'', ''1''})"
proof -
  have a: "acyclicWithin 3 heap_merge_arrays (Ref 0)" by code_simp
  have e: "mergeData 3 heap_merge_arrays 0 1 =
     Some (heap_merge_arrays @
       [\<lparr>isArray = False, frozen = False, props = [(''k'', Ref 5)]\<rparr>,
        \<lparr>isArray = False, frozen = False, props = [(''0'', Num 3), (''1'', Num 2)]\<rparr>], 4)"
    by code_simp
  have hyps: "(1::nat) < length heap_merge_arrays"
    "getProp heap_merge_arrays 0 ''k'' = Ref 2" "getProp heap_merge_arrays 1 ''k'' = Ref 3"
    "(3::nat) < length heap_merge_arrays"
    "isArray (heap_merge_arrays ! 2)" "isArray (heap_merge_arrays ! 3)"
    by (simp_all add: heap_merge_arrays_def getProp_def)
  from mergeData_arrays_become_objects [OF a hyps] obtain h' out m where
    r: "mergeData 3 heap_merge_arrays 0 1 = Some (h', out)" "getProp h' out ''k'' = Ref m"
      "length heap_merge_arrays < m" "\<not> isArray (h' ! m)"
      "set (keys h' m) = set (keys heap_merge_arrays 2) \<union> set (keys heap_merge_arrays 3)"
    by blast
  have "4 < m" using r(3) by (simp add: heap_merge_arrays_def)
  moreover have "set (keys h' m) = {''0'', ''1''}"
    using r(5) by (auto simp: keys_def heap_merge_arrays_def)
  ultimately show ?thesis using a e r by blast
qed

section \<open>Properties of \<open>deepFreeze\<close>\<close>

lemma freezes_nth:
  "freezes h h' \<longleftrightarrow> length h' = length h \<and>
     (\<forall>a<length h. props (h' ! a) = props (h ! a) \<and> isArray (h' ! a) = isArray (h ! a) \<and>
        (frozen (h ! a) \<longrightarrow> frozen (h' ! a)))"
  by (auto simp: freezes_def list_all2_conv_all_nth)

lemma freezes_refl: "freezes h h"
  by (simp add: freezes_nth)

lemma freezes_trans: "freezes h1 h2 \<Longrightarrow> freezes h2 h3 \<Longrightarrow> freezes h1 h3"
  by (auto simp: freezes_nth)

lemma freezes_freeze: "freezes h (freeze h a)"
proof (cases "a < length h")
  case True
  then show ?thesis
    by (auto simp: freezes_nth freeze_def nth_list_update)
next
  case False
  then show ?thesis
    by (simp add: freezes_nth freeze_def)
qed

lemma frozen_freeze: "a < length h \<Longrightarrow> frozen (freeze h a ! a)"
  by (simp add: freeze_def)

lemma freezes_objectValues:
  "freezes h h' \<Longrightarrow> a < length h \<Longrightarrow> objectValues h' a = objectValues h a"
  by (simp add: freezes_nth objectValues_def)

inductive_cases reachable_RefE: "reachable h (Ref a) b"

lemma reachable_Ref_iff:
  "reachable h (Ref a) b \<longleftrightarrow> b = a \<or> (\<exists>x\<in>set (objectValues h a). reachable h x b)"
  by (auto elim: reachable_RefE intro: reachable.intros)

lemma reachable_Ref_only: "reachable h v b \<Longrightarrow> instanceofObject v"
  by (induction rule: reachable.induct) simp_all

lemma reachable_bound:
  "acyclicWithin n h v \<Longrightarrow> reachable h v b \<Longrightarrow> b < length h"
proof (induction n arbitrary: v)
  case 0
  then show ?case by simp
next
  case (Suc n)
  from reachable_Ref_only [OF Suc.prems(2)] obtain a where v: "v = Ref a"
    by (auto simp: instanceofObject_iff)
  from Suc.prems(1) v have a: "a < length h" and
    kids: "\<And>x. x \<in> set (objectValues h a) \<Longrightarrow> acyclicWithin n h x"
    by (simp_all add: list_all_iff)
  from Suc.prems(2) v have "b = a \<or> (\<exists>x\<in>set (objectValues h a). reachable h x b)"
    by (simp add: reachable_Ref_iff)
  with a kids Suc.IH show ?case by blast
qed

lemma deepFreeze_values_run:
  assumes rec: "\<And>h v. v \<in> set vs \<Longrightarrow> freezes h0 h \<Longrightarrow>
      \<exists>h'. rec h v = Some (h', v) \<and> freezes h h' \<and> (\<forall>b. reachable h0 v b \<longrightarrow> frozen (h' ! b))"
    and bound: "\<And>v b. v \<in> set vs \<Longrightarrow> reachable h0 v b \<Longrightarrow> b < length h0"
    and inv: "freezes h0 h"
  shows "\<exists>h'. deepFreeze_values rec h vs = Some h' \<and> freezes h h' \<and>
     (\<forall>v\<in>set vs. \<forall>b. reachable h0 v b \<longrightarrow> frozen (h' ! b))"
  using rec bound inv
proof (induction vs arbitrary: h)
  case Nil
  show ?case by (simp add: freezes_refl)
next
  case (Cons v rest)
  from Cons.prems(1) [of v h] Cons.prems(3) obtain h1 where
    call: "rec h v = Some (h1, v)" and f1: "freezes h h1" and
    fz: "\<forall>b. reachable h0 v b \<longrightarrow> frozen (h1 ! b)"
    by auto
  have inv1: "freezes h0 h1" using Cons.prems(3) f1 by (rule freezes_trans)
  have "\<exists>h'. deepFreeze_values rec h1 rest = Some h' \<and> freezes h1 h' \<and>
     (\<forall>v\<in>set rest. \<forall>b. reachable h0 v b \<longrightarrow> frozen (h' ! b))"
  proof (rule Cons.IH [OF _ _ inv1])
    show "\<And>h v. v \<in> set rest \<Longrightarrow> freezes h0 h \<Longrightarrow>
      \<exists>h'. rec h v = Some (h', v) \<and> freezes h h' \<and> (\<forall>b. reachable h0 v b \<longrightarrow> frozen (h' ! b))"
      using Cons.prems(1) by simp
    show "\<And>v b. v \<in> set rest \<Longrightarrow> reachable h0 v b \<Longrightarrow> b < length h0"
      using Cons.prems(2) by auto
  qed
  then obtain h' where run: "deepFreeze_values rec h1 rest = Some h'" and f2: "freezes h1 h'" and
    fr: "\<forall>v\<in>set rest. \<forall>b. reachable h0 v b \<longrightarrow> frozen (h' ! b)"
    by blast
  have "frozen (h' ! b)" if "reachable h0 v b" for b
  proof -
    from that Cons.prems(2) have "b < length h0" by auto
    then have "b < length h1" using inv1 by (simp add: freezes_nth)
    with f2 fz that show ?thesis by (simp add: freezes_nth)
  qed
  with fr have "\<forall>x\<in>set (v # rest). \<forall>b. reachable h0 x b \<longrightarrow> frozen (h' ! b)"
    by simp
  moreover have "freezes h h'" using f1 f2 by (rule freezes_trans)
  moreover have "deepFreeze_values rec h (v # rest) = Some h'"
    using call run by simp
  ultimately show ?case by blast
qed

lemma deepFreeze_run:
  "acyclicWithin n h0 obj \<Longrightarrow> freezes h0 h \<Longrightarrow>
   \<exists>h'. deepFreeze n h obj = Some (h', obj) \<and> freezes h h' \<and>
     (\<forall>b. reachable h0 obj b \<longrightarrow> frozen (h' ! b)) \<and>
     (\<not> instanceofObject obj \<longrightarrow> h' = h)"
proof (induction n arbitrary: obj h)
  case 0
  then show ?case by simp
next
  case (Suc n)
  show ?case
  proof (cases "instanceofObject obj")
    case False
    then have "obj = Null \<or> typeof obj \<noteq> ''object''"
      by (cases obj) simp_all
    then have "deepFreeze (Suc n) h obj = Some (h, obj)" by simp
    moreover have "\<forall>b. \<not> reachable h0 obj b"
      using False reachable_Ref_only by blast
    ultimately show ?thesis
      by (simp add: freezes_refl)
  next
    case True
    then obtain a where obj: "obj = Ref a" by (auto simp: instanceofObject_iff)
    from Suc.prems(1) obj have a: "a < length h0" and
      kids: "\<And>x. x \<in> set (objectValues h0 a) \<Longrightarrow> acyclicWithin n h0 x"
      by (simp_all add: list_all_iff)
    let ?h1 = "freeze h a"
    have al: "a < length h" using a Suc.prems(2) by (simp add: freezes_nth)
    have f01: "freezes h0 ?h1"
      using Suc.prems(2) freezes_freeze by (rule freezes_trans)
    have vals: "objectValues ?h1 a = objectValues h0 a"
      using f01 a by (rule freezes_objectValues)
    have "\<exists>h'. deepFreeze_values (deepFreeze n) ?h1 (objectValues h0 a) = Some h' \<and>
       freezes ?h1 h' \<and>
       (\<forall>v\<in>set (objectValues h0 a). \<forall>b. reachable h0 v b \<longrightarrow> frozen (h' ! b))"
    proof (rule deepFreeze_values_run [OF _ _ f01])
      show "\<And>h v. v \<in> set (objectValues h0 a) \<Longrightarrow> freezes h0 h \<Longrightarrow>
        \<exists>h'. deepFreeze n h v = Some (h', v) \<and> freezes h h' \<and>
          (\<forall>b. reachable h0 v b \<longrightarrow> frozen (h' ! b))"
        using Suc.IH kids by blast
      show "\<And>v b. v \<in> set (objectValues h0 a) \<Longrightarrow> reachable h0 v b \<Longrightarrow> b < length h0"
        using kids reachable_bound by blast
    qed
    then obtain h' where
      run: "deepFreeze_values (deepFreeze n) ?h1 (objectValues h0 a) = Some h'" and
      f1: "freezes ?h1 h'" and
      fr: "\<forall>v\<in>set (objectValues h0 a). \<forall>b. reachable h0 v b \<longrightarrow> frozen (h' ! b)"
      by blast
    have call: "deepFreeze (Suc n) h obj = Some (h', obj)"
      using obj run vals by (simp add: Let_def)
    have fz: "freezes h h'" using freezes_freeze f1 by (rule freezes_trans)
    have fa: "frozen (h' ! a)"
      using frozen_freeze [OF al] f1 al by (simp add: freezes_nth freeze_def)
    have "frozen (h' ! b)" if "reachable h0 obj b" for b
    proof -
      from that obj have "b = a \<or> (\<exists>x\<in>set (objectValues h0 a). reachable h0 x b)"
        by (simp add: reachable_Ref_iff)
      with fa fr show ?thesis by blast
    qed
    with call fz True show ?thesis by blast
  qed
qed

lemma assign_frozen:
  "frozen (h ! a) \<Longrightarrow>
   assign strict h a key v =
     (if strict then Inl (TypeError ''Cannot assign to read only property'') else Inr h)"
  by (simp add: assign_def setProp_def)

text \<open>
  Claim C4. For every acyclic object graph, \<open>deepFreeze(obj)\<close> returns, and returns
  \<open>obj\<close> itself; no property has changed; the object and every object reachable from it
  through properties is frozen, so an assignment to a property of any of them throws (strict
  code) or leaves the heap as it is (sloppy code), and a read gives the value it gave before
  the call. For a value that is not an object the heap is returned as it was.
\<close>

theorem deepFreeze_freezes_graph:
  assumes "acyclicWithin n h obj"
  shows "\<exists>h'. deepFreeze n h obj = Some (h', obj) \<and> freezes h h' \<and>
     (\<not> instanceofObject obj \<longrightarrow> h' = h) \<and>
     (\<forall>a. reachable h obj a \<longrightarrow>
        frozen (h' ! a) \<and>
        (\<forall>strict key v. assign strict h' a key v =
           (if strict then Inl (TypeError ''Cannot assign to read only property'')
            else Inr h')) \<and>
        (\<forall>key. getProp h' a key = getProp h a key))"
proof -
  from deepFreeze_run [OF assms freezes_refl] obtain h' where
    call: "deepFreeze n h obj = Some (h', obj)" and fz: "freezes h h'" and
    fr: "\<forall>b. reachable h obj b \<longrightarrow> frozen (h' ! b)" and
    prim: "\<not> instanceofObject obj \<longrightarrow> h' = h"
    by blast
  have "frozen (h' ! a) \<and>
        (\<forall>strict key v. assign strict h' a key v =
           (if strict then Inl (TypeError ''Cannot assign to read only property'')
            else Inr h')) \<and>
        (\<forall>key. getProp h' a key = getProp h a key)"
    if r: "reachable h obj a" for a
  proof -
    from fr r have f: "frozen (h' ! a)" by simp
    from assms r have "a < length h" by (rule reachable_bound)
    with fz have "props (h' ! a) = props (h ! a)" by (simp add: freezes_nth)
    then have "\<forall>key. getProp h' a key = getProp h a key" by (simp add: getProp_def)
    with f assign_frozen [OF f] show ?thesis by simp
  qed
  with call fz prim show ?thesis by blast
qed

theorem deepFreeze_freezes_graph_witness:
  "acyclicWithin 3 heap_nested (Ref 0) \<and> reachable heap_nested (Ref 0) 1 \<and>
   (\<exists>h'. deepFreeze 3 heap_nested (Ref 0) = Some (h', Ref 0) \<and>
      frozen (h' ! 0) \<and> frozen (h' ! 1) \<and>
      assign False h' 1 ''b'' (Num 2) = Inr h' \<and>
      assign True h' 1 ''b'' (Num 2) = Inl (TypeError ''Cannot assign to read only property'') \<and>
      getProp h' 1 ''b'' = Num 1) \<and>
   acyclicWithin 1 heap_nested (Num 5) \<and>
   deepFreeze 1 heap_nested (Num 5) = Some (heap_nested, Num 5)"
proof -
  have a: "acyclicWithin 3 heap_nested (Ref 0)" by code_simp
  have r0: "reachable heap_nested (Ref 0) 0" by (rule reachable_self)
  have "Ref 1 \<in> set (objectValues heap_nested 0)"
    by (simp add: objectValues_def heap_nested_def)
  then have r1: "reachable heap_nested (Ref 0) 1"
    using reachable_self by (rule reachable_step)
  from deepFreeze_freezes_graph [OF a] obtain h' where
    call: "deepFreeze 3 heap_nested (Ref 0) = Some (h', Ref 0)" and
    all: "\<forall>a. reachable heap_nested (Ref 0) a \<longrightarrow>
        frozen (h' ! a) \<and>
        (\<forall>strict key v. assign strict h' a key v =
           (if strict then Inl (TypeError ''Cannot assign to read only property'')
            else Inr h')) \<and>
        (\<forall>key. getProp h' a key = getProp heap_nested a key)"
    by blast
  from all r0 have f0: "frozen (h' ! 0)" by blast
  from all r1 have f1: "frozen (h' ! 1)" and
    as: "\<forall>strict key v. assign strict h' 1 key v =
           (if strict then Inl (TypeError ''Cannot assign to read only property'')
            else Inr h')" and
    g: "\<forall>key. getProp h' 1 key = getProp heap_nested 1 key"
    by blast+
  have g1: "getProp h' 1 ''b'' = Num 1"
    using g by (simp add: getProp_def heap_nested_def)
  have p: "acyclicWithin 1 heap_nested (Num 5)" by simp
  from deepFreeze_freezes_graph [OF p] have
    p2: "deepFreeze 1 heap_nested (Num 5) = Some (heap_nested, Num 5)"
    by auto
  from as have "assign False h' 1 ''b'' (Num 2) = Inr h'"
    "assign True h' 1 ''b'' (Num 2) = Inl (TypeError ''Cannot assign to read only property'')"
    by simp_all
  with a r1 call f0 f1 g1 p p2 show ?thesis by blast
qed

section \<open>Properties of \<open>toDto\<close>\<close>

lemma constraintsMessage_append:
  "constraintsMessage message cs =
     message @ concat (map (\<lambda>c. ''- '' @ fst c @ '': '' @ snd c @ [newline]) cs)"
  by (induction cs arbitrary: message) simp_all

lemma errorsMessage_append:
  "errorsMessage message es = message @ concat (map errorLines es)"
proof (induction es arbitrary: message)
  case Nil
  show ?case by simp
next
  case (Cons e es)
  show ?case
  proof (cases "constraints e")
    case None
    then show ?thesis by (simp add: Cons.IH errorLines_def)
  next
    case (Some cs)
    then show ?thesis by (simp add: Cons.IH errorLines_def constraintsMessage_append)
  qed
qed

text \<open>
  Claim C6 as the specification words it, refuted. With the field \<open>port\<close> violating the
  constraints \<open>isInt\<close> and \<open>min\<close>, the message has the line
  \<open>- isInt: port must be an integer number\<close>: each entry starts with a dash and names the
  constraint, not the field, and the entry \<open>port: port must be an integer number\<close> of the
  specification occurs nowhere in it.
\<close>

theorem toDto_message_counterexample:
  "toDto ''Config'' (0::nat) validateSync_example (ValidateFlag True) =
     Inl (DtoValidationError ''Config''
       (''- isInt: port must be an integer number'' @ [newline] @
        ''- min: port must not be less than 1'' @ [newline] @
        ''- An instance of Db has failed the validation'' @ [newline])) \<and>
   \<not> sublist (spec_entry ''port'' ''port must be an integer number'')
       (''- isInt: port must be an integer number'' @ [newline] @
        ''- min: port must not be less than 1'' @ [newline] @
        ''- An instance of Db has failed the validation'' @ [newline]) \<and>
   spec_validation_message (validateSync_example 0 None) =
     ''port: port must be an integer number'' @ [newline] @
     ''port: port must not be less than 1''"
  by code_simp

text \<open>
  Claim C6, amended. When \<open>toDto\<close> is called with a truthy \<open>validate\<close> and the validator
  reports at least one error, no instance is returned: the call fails with one error whose
  message holds, for every reported error in order, one line \<open>- <constraint>: <message>\<close>
  per violated constraint (the constraint's name, not the field's), or the one line
  \<open>- <error.toString()>\<close> for an error without constraints, each line ended by a newline.
\<close>

theorem toDto_validation_failure:
  assumes "truthyValidate validate"
    and "validateSync inst (validateOptionOf validate) \<noteq> []"
  shows "toDto dtoClassName inst validateSync validate =
     Inl (DtoValidationError dtoClassName
            (concat (map errorLines (validateSync inst (validateOptionOf validate)))))"
  using assms by (simp add: toDto_def Let_def errorsMessage_append)

theorem toDto_validation_failure_witness:
  "truthyValidate (ValidateFlag True :: unit validate) \<and>
   validateSync_example 0 (validateOptionOf (ValidateFlag True)) \<noteq> [] \<and>
   toDto ''Config'' (0::nat) validateSync_example (ValidateFlag True) =
     Inl (DtoValidationError ''Config''
       (''- isInt: port must be an integer number'' @ [newline] @
        ''- min: port must not be less than 1'' @ [newline] @
        ''- An instance of Db has failed the validation'' @ [newline]))"
proof -
  have t: "truthyValidate (ValidateFlag True :: unit validate)" by simp
  have e: "validateSync_example 0 (validateOptionOf (ValidateFlag True)) \<noteq> []"
    by (simp add: validateSync_example_def)
  have "concat (map errorLines (validateSync_example 0 (validateOptionOf (ValidateFlag True)))) =
       ''- isInt: port must be an integer number'' @ [newline] @
        ''- min: port must not be less than 1'' @ [newline] @
        ''- An instance of Db has failed the validation'' @ [newline]"
    by (simp add: validateSync_example_def errorLines_def port_error_def db_error_def)
  with toDto_validation_failure [of "ValidateFlag True" validateSync_example 0 "''Config''"] t e
  show ?thesis by simp
qed

section \<open>Properties of \<open>replaceEnvVariable\<close>\<close>

text \<open>The examples of the specification, evaluated.\<close>

lemma replaceEnvVariable_spec_examples:
  "replaceEnvVariable 2 [(''A'', Some ''1''), (''B'', Some ''${A}-2'')] =
     Some (Inr [(''A'', ''1''), (''B'', ''1-2'')]) \<and>
   replaceEnvVariable 2 [(''A'', Some ''${A}'')] = Some (Inl (SelfReferenceError ''A'')) \<and>
   replaceEnvVariable 2 [(''A'', Some ''${B}'')] = Some (Inl (MissingVariableError ''B'')) \<and>
   replaceEnvVariable 2 [(''A'', None), (''B'', Some ''x'')] = Some (Inr [(''B'', ''x'')])"
  by code_simp

text \<open>
  A value \<open>$&\<close> substituted for a placeholder writes the placeholder back, so the loop
  for the referring key never ends, whatever the fuel.
\<close>

lemma replaceLoop_ampersand: "replaceLoop n env_ampersand ''B'' ''${A}'' = None"
proof (induction n)
  case 0
  show ?case by simp
next
  case (Suc n)
  have r: "regexExec ''${A}'' = Some ''A''" by code_simp
  have g: "envGet env_ampersand ''A'' = Some ''$&''" by code_simp
  have s: "replaceFirst ''${A}'' ''${A}'' ''$&'' = ''${A}''" by code_simp
  have u: "AList.update ''B'' (Some ''${A}'') env_ampersand = env_ampersand" by code_simp
  show ?case
    using Suc.IH by (simp add: r g s u Let_def del: regexExec.simps)
qed

lemma replaceEnvVariable_ampersand: "replaceEnvVariable n env_ampersand = None"
proof (cases n)
  case 0
  have "envGet env_ampersand ''A'' = Some ''$&''" by code_simp
  then show ?thesis
    using 0 by (simp add: replaceEnvVariable_def env_ampersand_def)
next
  case (Suc m)
  have r: "regexExec ''$&'' = None" by code_simp
  have gA: "envGet env_ampersand ''A'' = Some ''$&''" by code_simp
  have gB: "envGet env_ampersand ''B'' = Some ''${A}''" by code_simp
  have ks: "map fst env_ampersand = [''A'', ''B'']" by code_simp
  have lA: "replaceLoop (Suc m) env_ampersand ''A'' ''$&'' = Some (Inr (env_ampersand, ''$&''))"
    by (simp add: r del: regexExec.simps)
  show ?thesis
    using replaceLoop_ampersand [of "Suc m"]
    by (simp add: replaceEnvVariable_def ks gA gB lA Suc del: replaceLoop.simps)
qed

text \<open>
  Claim C5, at inputs where the code departs from it. The mapping has no cycle. With
  \<open>PASSWORD=pa$$word\<close>, the placeholder of \<open>URL\<close> is replaced by \<open>pa$word\<close>, not by
  the value of \<open>PASSWORD\<close>; with \<open>A=$&\<close> and \<open>B=${A}\<close> the call returns for no
  amount of fuel.
\<close>

theorem replaceEnvVariable_dollar_eval:
  "replaceEnvVariable 2 env_password =
     Some (Inr [(''PASSWORD'', ''pa$$word''), (''URL'', ''db://app:pa$word@host'')]) \<and>
   (\<forall>n. replaceEnvVariable n env_ampersand = None)"
proof -
  have "replaceEnvVariable 2 env_password =
     Some (Inr [(''PASSWORD'', ''pa$$word''), (''URL'', ''db://app:pa$word@host'')])"
    by code_simp
  then show ?thesis
    using replaceEnvVariable_ampersand by simp
qed

end
